theory Spec2Isabelle
  imports Main
begin

section \<open>Go library functions used by the parser\<close>

text \<open>
  Go strings are byte sequences; \<^typ>\<open>string\<close> is a list of \<^typ>\<open>char\<close>, one per byte.
  The functions of this section are not part of the repository: they model the parts of
  \<^verbatim>\<open>net/url\<close>, \<^verbatim>\<open>encoding/base64\<close>, \<^verbatim>\<open>strconv\<close>, \<^verbatim>\<open>strings\<close> and \<^verbatim>\<open>fmt\<close> that the parser calls.
\<close>

subsection \<open>\<^verbatim>\<open>url.QueryUnescape\<close>\<close>

definition ord :: "char \<Rightarrow> nat" where
  "ord c = of_char c"

definition ishex :: "char \<Rightarrow> bool" where
  "ishex c \<longleftrightarrow> (48 \<le> ord c \<and> ord c \<le> 57) \<or> (97 \<le> ord c \<and> ord c \<le> 102) \<or> (65 \<le> ord c \<and> ord c \<le> 70)"

definition unhex :: "char \<Rightarrow> nat" where
  "unhex c =
     (if 48 \<le> ord c \<and> ord c \<le> 57 then ord c - 48
      else if 97 \<le> ord c \<and> ord c \<le> 102 then ord c - 97 + 10
      else if 65 \<le> ord c \<and> ord c \<le> 70 then ord c - 65 + 10
      else 0)"

text \<open>First pass of \<^verbatim>\<open>unescape\<close>: every \<^verbatim>\<open>%\<close> is followed by two hex digits.\<close>

fun escapes_ok :: "string \<Rightarrow> bool" where
  "escapes_ok [] = True"
| "escapes_ok (c # cs) =
     (if c = CHR ''%'' then
        (case cs of
           h1 # h2 # rest \<Rightarrow> ishex h1 \<and> ishex h2 \<and> escapes_ok rest
         | _ \<Rightarrow> False)
      else escapes_ok cs)"

text \<open>Second pass, in query mode: \<^verbatim>\<open>%XX\<close> becomes the byte, \<^verbatim>\<open>+\<close> becomes a space.\<close>

fun unescape_bytes :: "string \<Rightarrow> string" where
  "unescape_bytes [] = []"
| "unescape_bytes (c # cs) =
     (if c = CHR ''%'' then
        (case cs of
           h1 # h2 # rest \<Rightarrow> char_of (unhex h1 * 16 + unhex h2) # unescape_bytes rest
         | _ \<Rightarrow> [])
      else if c = CHR ''+'' then CHR '' '' # unescape_bytes cs
      else c # unescape_bytes cs)"

datatype escape_error = EscapeError

text \<open>Go returns the pair (value, error); on a malformed escape the value is the empty string.\<close>

definition QueryUnescape :: "string \<Rightarrow> string \<times> escape_error option" where
  "QueryUnescape s = (if escapes_ok s then (unescape_bytes s, None) else ([], Some EscapeError))"

subsection \<open>\<^verbatim>\<open>encoding/base64\<close>\<close>

record encoding =
  alphabet :: string
  padChar :: "char option"

definition encodeStd :: string where
  "encodeStd = ''ABCDEFGHIJKLMNOPQRSTUVWXYZabcdefghijklmnopqrstuvwxyz0123456789+/''"

definition encodeURL :: string where
  "encodeURL = ''ABCDEFGHIJKLMNOPQRSTUVWXYZabcdefghijklmnopqrstuvwxyz0123456789-_''"

definition StdEncoding :: encoding where
  "StdEncoding = \<lparr>alphabet = encodeStd, padChar = Some (CHR ''='')\<rparr>"

definition URLEncoding :: encoding where
  "URLEncoding = \<lparr>alphabet = encodeURL, padChar = Some (CHR ''='')\<rparr>"

definition RawURLEncoding :: encoding where
  "RawURLEncoding = \<lparr>alphabet = encodeURL, padChar = None\<rparr>"

text \<open>
  \<^verbatim>\<open>EncodeToString\<close>: three bytes become four alphabet characters; a final block of one or
  two bytes becomes two or three characters, padded to four when the encoding pads.
  The shifts and masks of the Go code are written as \<open>div\<close> and \<open>mod\<close> by powers of two.
\<close>

fun EncodeToString :: "encoding \<Rightarrow> string \<Rightarrow> string" where
  "EncodeToString e [] = []"
| "EncodeToString e [a] =
     (let val = ord a * 65536
      in [alphabet e ! (val div 262144 mod 64), alphabet e ! (val div 4096 mod 64)]
         @ (case padChar e of None \<Rightarrow> [] | Some p \<Rightarrow> [p, p]))"
| "EncodeToString e [a, b] =
     (let val = ord a * 65536 + ord b * 256
      in [alphabet e ! (val div 262144 mod 64), alphabet e ! (val div 4096 mod 64),
          alphabet e ! (val div 64 mod 64)]
         @ (case padChar e of None \<Rightarrow> [] | Some p \<Rightarrow> [p]))"
| "EncodeToString e (a # b # c # rest) =
     (let val = ord a * 65536 + ord b * 256 + ord c
      in [alphabet e ! (val div 262144 mod 64), alphabet e ! (val div 4096 mod 64),
          alphabet e ! (val div 64 mod 64), alphabet e ! (val mod 64)] @ EncodeToString e rest)"

text \<open>The decode map of an encoding sends a character to its position in the alphabet.\<close>

fun index_from :: "nat \<Rightarrow> 'a \<Rightarrow> 'a list \<Rightarrow> nat option" where
  "index_from i x [] = None"
| "index_from i x (y # ys) = (if x = y then Some i else index_from (i + 1) x ys)"

definition index_of :: "'a \<Rightarrow> 'a list \<Rightarrow> nat option" where
  "index_of x ys = index_from 0 x ys"

definition is_newline :: "char \<Rightarrow> bool" where
  "is_newline c \<longleftrightarrow> c = CHR 0x0A \<or> c = CHR 0x0D"

definition skip_newlines :: "string \<Rightarrow> string" where
  "skip_newlines s = dropWhile is_newline s"

text \<open>
  The bytes of one quantum: \<open>vs\<close> holds the 6-bit values read so far (two, three or four
  of them); \<open>length vs - 1\<close> bytes come out. The decoder is not strict: the unused low bits
  of a short final quantum are ignored.
\<close>

definition quantum_bytes :: "nat list \<Rightarrow> string" where
  "quantum_bytes vs =
     (let d = vs @ replicate (4 - length vs) 0;
          val = d ! 0 * 262144 + d ! 1 * 4096 + d ! 2 * 64 + d ! 3
      in take (length vs - 1) [char_of (val div 65536 mod 256), char_of (val div 256 mod 256), char_of (val mod 256)])"

text \<open>
  \<^verbatim>\<open>DecodeString\<close>, following \<^verbatim>\<open>decodeQuantum\<close>: carriage returns and line feeds are skipped,
  any other character outside the alphabet is corrupt input unless it is the padding
  character in the third or fourth position of the last quantum, followed by the rest of
  the padding and nothing else. An encoding without padding accepts a final quantum of two
  or three characters; an encoding with padding does not. \<open>None\<close> is a decoding error.
\<close>

fun decode_from :: "encoding \<Rightarrow> nat list \<Rightarrow> string \<Rightarrow> string option" where
  "decode_from e vs [] =
     (if vs = [] then Some []
      else if length vs = 1 \<or> padChar e \<noteq> None then None
      else Some (quantum_bytes vs))"
| "decode_from e vs (c # cs) =
     (case index_of c (alphabet e) of
        Some v \<Rightarrow>
          (if length vs = 3
           then map_option (\<lambda>r. quantum_bytes (vs @ [v]) @ r) (decode_from e [] cs)
           else decode_from e (vs @ [v]) cs)
      | None \<Rightarrow>
          (if is_newline c then decode_from e vs cs
           else if padChar e \<noteq> Some c then None
           else if length vs < 2 then None
           else if length vs = 2 then
             (case skip_newlines cs of
                [] \<Rightarrow> None
              | d # ds \<Rightarrow>
                  (if padChar e \<noteq> Some d then None
                   else if skip_newlines ds \<noteq> [] then None
                   else Some (quantum_bytes vs)))
           else
             (if skip_newlines cs \<noteq> [] then None else Some (quantum_bytes vs))))"

definition DecodeString :: "encoding \<Rightarrow> string \<Rightarrow> string option" where
  "DecodeString e s = decode_from e [] s"

text \<open>
  A decoder \<open>d\<close> rejects a character that is outside its alphabet and is neither a
  line break nor its padding character. \<open>reads d e\<close>: the decoder \<open>d\<close> gives every
  character of the alphabet of \<open>e\<close> the value that \<open>e\<close> gave it, or rejects it, and the
  padding character of \<open>e\<close> is no character of the alphabet of \<open>d\<close>. \<open>reads_all d e\<close>:
  it rejects none of them and pads alike.
\<close>

definition rejects :: "encoding \<Rightarrow> char \<Rightarrow> bool" where
  "rejects d c \<longleftrightarrow> index_of c (alphabet d) = None \<and> \<not> is_newline c \<and> padChar d \<noteq> Some c"

definition reads :: "encoding \<Rightarrow> encoding \<Rightarrow> bool" where
  "reads d e \<longleftrightarrow>
     (\<forall>v < 64. index_of (alphabet e ! v) (alphabet d) = Some v \<or> rejects d (alphabet e ! v))
     \<and> (case padChar e of
           None \<Rightarrow> True
         | Some p \<Rightarrow> index_of p (alphabet d) = None \<and> \<not> is_newline p)"

definition reads_all :: "encoding \<Rightarrow> encoding \<Rightarrow> bool" where
  "reads_all d e \<longleftrightarrow>
     (\<forall>v < 64. index_of (alphabet e ! v) (alphabet d) = Some v) \<and> padChar d = padChar e"

subsection \<open>\<^verbatim>\<open>strconv.Atoi\<close>, \<^verbatim>\<open>%d\<close>, \<^verbatim>\<open>strings\<close>\<close>

datatype num_error = ErrSyntax | ErrRange

definition is_digit :: "char \<Rightarrow> bool" where
  "is_digit c \<longleftrightarrow> 48 \<le> ord c \<and> ord c \<le> 57"

text \<open>
  \<^verbatim>\<open>ParseUint(s, 10, 64)\<close> reads the bytes in turn, \<open>n\<close> being the value so far. A byte
  that is no decimal digit is a syntax error, with the value 0. A digit at which the
  value would leave \<^verbatim>\<open>uint64\<close> is a range error, with the value \<open>2^64 - 1\<close>, and the
  rest of the string is not read. The empty string is a syntax error.
\<close>

fun ParseUint_digits :: "nat \<Rightarrow> string \<Rightarrow> nat \<times> num_error option" where
  "ParseUint_digits n [] = (n, None)"
| "ParseUint_digits n (c # cs) =
     (if \<not> is_digit c then (0, Some ErrSyntax)
      else if n \<ge> 1844674407370955162 then (18446744073709551615, Some ErrRange)
      else if n * 10 + (ord c - 48) > 18446744073709551615
      then (18446744073709551615, Some ErrRange)
      else ParseUint_digits (n * 10 + (ord c - 48)) cs)"

definition ParseUint :: "string \<Rightarrow> nat \<times> num_error option" where
  "ParseUint s = (if s = [] then (0, Some ErrSyntax) else ParseUint_digits 0 s)"

text \<open>
  \<^verbatim>\<open>Atoi\<close> on a 64-bit platform, that is \<^verbatim>\<open>ParseInt(s, 10, 0)\<close> (the fast path of \<^verbatim>\<open>Atoi\<close>
  for short strings computes the same): a leading sign is taken off, the rest goes to
  \<^verbatim>\<open>ParseUint\<close>. Go returns the pair (value, error): the value is 0 on a syntax error and
  the nearest bound of \<^verbatim>\<open>int64\<close> on a range error.
\<close>

definition Atoi :: "string \<Rightarrow> int \<times> num_error option" where
  "Atoi s =
     (case s of
        [] \<Rightarrow> (0, Some ErrSyntax)
      | c # cs \<Rightarrow>
          (let neg = (c = CHR ''-'');
               ds = (if c = CHR ''+'' \<or> c = CHR ''-'' then cs else s)
           in case ParseUint ds of
                (un, err) \<Rightarrow>
                  (if err = Some ErrSyntax then (0, Some ErrSyntax)
                   else if \<not> neg \<and> un \<ge> 9223372036854775808
                   then (9223372036854775807, Some ErrRange)
                   else if neg \<and> un > 9223372036854775808
                   then (- 9223372036854775808, Some ErrRange)
                   else (if neg then - int un else int un, None))))"

text \<open>The number that a string of decimal digits denotes, after the digits \<open>n\<close>.\<close>

fun digits_value :: "nat \<Rightarrow> string \<Rightarrow> nat" where
  "digits_value n [] = n"
| "digits_value n (c # cs) = digits_value (n * 10 + (ord c - 48)) cs"

text \<open>A decimal string short enough to fit \<^verbatim>\<open>int\<close>: one to eighteen digits.\<close>

definition numeric :: "string \<Rightarrow> bool" where
  "numeric s \<longleftrightarrow> s \<noteq> [] \<and> list_all is_digit s \<and> length s \<le> 18"

text \<open>The verb \<^verbatim>\<open>%d\<close> of \<^verbatim>\<open>fmt.Sprintf\<close>: the decimal digits, with a minus sign when negative.\<close>

fun show_nat :: "nat \<Rightarrow> string" where
  "show_nat n = (if n < 10 then [char_of (48 + n)] else show_nat (n div 10) @ [char_of (48 + n mod 10)])"

declare show_nat.simps [simp del]

definition show_int :: "int \<Rightarrow> string" where
  "show_int i = (if i < 0 then CHR ''-'' # show_nat (nat (- i)) else show_nat (nat i))"

text \<open>\<^verbatim>\<open>strings.SplitN(s, sep, 2)\<close> for a one-byte separator: cut at the first separator only.\<close>

definition SplitN2 :: "string \<Rightarrow> char \<Rightarrow> string list" where
  "SplitN2 s sep =
     (if sep \<in> set s then [takeWhile (\<lambda>c. c \<noteq> sep) s, tl (dropWhile (\<lambda>c. c \<noteq> sep) s)] else [s])"

definition HasPrefix :: "string \<Rightarrow> string \<Rightarrow> bool" where
  "HasPrefix s p \<longleftrightarrow> take (length p) s = p"

definition TrimPrefix :: "string \<Rightarrow> string \<Rightarrow> string" where
  "TrimPrefix s p = (if HasPrefix s p then drop (length p) s else s)"

subsection \<open>\<^verbatim>\<open>url.URL\<close> and \<^verbatim>\<open>json.Unmarshal\<close>\<close>

text \<open>
  What the parser reads from a parsed URL: the results of \<^verbatim>\<open>u.Hostname()\<close>, \<^verbatim>\<open>u.Port()\<close>
  (empty when the authority has no port), \<^verbatim>\<open>u.User.Username()\<close>, \<^verbatim>\<open>u.User.String()\<close>,
  \<^verbatim>\<open>u.Query()\<close> and \<^verbatim>\<open>u.Fragment\<close>. \<^verbatim>\<open>url.Parse\<close> itself is a parameter of the parsing
  functions: it maps the raw line to an error text or to such a URL.
\<close>

record URL =
  url_Hostname :: string
  url_Port :: string
  url_Username :: string
  url_UserString :: string
  url_Query :: "string \<rightharpoonup> string list"
  url_Fragment :: string

text \<open>\<^verbatim>\<open>Values.Get\<close>: the first value of the key, the empty string when there is none.\<close>

definition Get :: "(string \<rightharpoonup> string list) \<Rightarrow> string \<Rightarrow> string" where
  "Get q key = (case q key of None \<Rightarrow> [] | Some [] \<Rightarrow> [] | Some (v # _) \<Rightarrow> v)"

text \<open>
  A value that \<^verbatim>\<open>json.Unmarshal\<close> stores in a field of type \<^verbatim>\<open>interface{}\<close>: \<^verbatim>\<open>nil\<close> for
  \<^verbatim>\<open>null\<close> or an absent field, \<^verbatim>\<open>bool\<close>, \<^verbatim>\<open>float64\<close> for every number, \<^verbatim>\<open>string\<close>, a slice or
  a map. The type \<open>'f\<close> stands for \<^verbatim>\<open>float64\<close>.
\<close>

datatype 'f json =
    JNull
  | JBool bool
  | JNumber 'f
  | JString string
  | JArray "'f json list"
  | JObject "(string \<times> 'f json) list"

section \<open>The URI parser (\<^verbatim>\<open>internal/parser/parser.go\<close>)\<close>

record VlessConfig =
  vless_Name :: string
  vless_UUID :: string
  vless_Server :: string
  vless_Port :: int
  vless_Security :: string
  vless_Type :: string
  vless_SNI :: string
  vless_Host :: string
  vless_Path :: string
  vless_Fp :: string
  vless_Encryption :: string
  vless_Flow :: string
  vless_PublicKey :: string
  vless_ShortID :: string

record SSConfig =
  ss_Name :: string
  ss_Method :: string
  ss_Password :: string
  ss_Server :: string
  ss_Port :: int

record VmessConfig =
  vmess_Name :: string
  vmess_UUID :: string
  vmess_Server :: string
  vmess_Port :: int
  vmess_Aid :: int
  vmess_Security :: string
  vmess_Network :: string
  vmess_TLS :: string
  vmess_SNI :: string
  vmess_Host :: string
  vmess_Path :: string

record TrojanConfig =
  trojan_Name :: string
  trojan_Password :: string
  trojan_Server :: string
  trojan_Port :: int
  trojan_Security :: string
  trojan_Type :: string
  trojan_SNI :: string
  trojan_Host :: string
  trojan_Path :: string
  trojan_Fp :: string

text \<open>The interface \<^verbatim>\<open>ProxyConfig\<close> has exactly these four implementations.\<close>

datatype ProxyConfig =
    Vless VlessConfig
  | ShadowSocks SSConfig
  | Vmess VmessConfig
  | Trojan TrojanConfig

fun GetName :: "ProxyConfig \<Rightarrow> string" where
  "GetName (Vless v) = vless_Name v"
| "GetName (ShadowSocks c) = ss_Name c"
| "GetName (Vmess v) = vmess_Name v"
| "GetName (Trojan t) = trojan_Name t"

fun GetProtocol :: "ProxyConfig \<Rightarrow> string" where
  "GetProtocol (Vless v) = ''vless''"
| "GetProtocol (ShadowSocks c) = ''shadowsocks''"
| "GetProtocol (Vmess v) = ''vmess''"
| "GetProtocol (Trojan t) = ''trojan''"

fun GetServer :: "ProxyConfig \<Rightarrow> string" where
  "GetServer (Vless v) = vless_Server v"
| "GetServer (ShadowSocks c) = ss_Server c"
| "GetServer (Vmess v) = vmess_Server v"
| "GetServer (Trojan t) = trojan_Server t"

fun GetPort :: "ProxyConfig \<Rightarrow> int" where
  "GetPort (Vless v) = vless_Port v"
| "GetPort (ShadowSocks c) = ss_Port c"
| "GetPort (Vmess v) = vmess_Port v"
| "GetPort (Trojan t) = trojan_Port t"

text \<open>
  The errors of the parser. The code builds each with \<^verbatim>\<open>fmt.Errorf\<close>; one constructor
  stands for each message:
  \<^item> \<open>EmptyOrComment\<close>: \<^verbatim>\<open>"empty or comment line"\<close>;
  \<^item> \<open>UnsupportedProtocol\<close>: \<^verbatim>\<open>"unsupported protocol in: ..."\<close>, with the line;
  \<^item> \<open>MalformedURI\<close>: \<^verbatim>\<open>"vless parse error: ..."\<close>, \<^verbatim>\<open>"ss parse error: ..."\<close>, \<^verbatim>\<open>"trojan parse error: ..."\<close>;
  \<^item> \<open>InvalidPort\<close>: \<^verbatim>\<open>"invalid port: ..."\<close>;
  \<^item> \<open>Base64DecodeFailed\<close>: \<^verbatim>\<open>"base64 decode failed: ..."\<close>, wrapped by \<^verbatim>\<open>"ss userinfo decode error: ..."\<close>
    or \<^verbatim>\<open>"vmess base64 decode: ..."\<close>;
  \<^item> \<open>InvalidUserinfo\<close>: \<^verbatim>\<open>"ss userinfo format invalid: ..."\<close>, with the decoded text;
  \<^item> \<open>MalformedJSON\<close>: \<^verbatim>\<open>"vmess json: ..."\<close>;
  \<^item> \<open>PortCoercionFailed\<close>: \<^verbatim>\<open>"vmess port: ..."\<close>, wrapping the error of \<^verbatim>\<open>toInt\<close>.
\<close>

datatype toInt_error = AtoiFailed num_error | UnexpectedType

datatype parse_error =
    EmptyOrComment
  | UnsupportedProtocol string
  | MalformedURI string
  | InvalidPort num_error
  | Base64DecodeFailed
  | InvalidUserinfo string
  | MalformedJSON string
  | PortCoercionFailed toInt_error

text \<open>
  \<^verbatim>\<open>base64DecodeUserinfo\<close>. The error of \<^verbatim>\<open>url.QueryUnescape\<close> is discarded and its value
  kept. Padding is computed from the length, then the three decoders are tried in turn.
\<close>

definition base64DecodeUserinfo :: "string \<Rightarrow> parse_error + string" where
  "base64DecodeUserinfo s0 =
     (let s = fst (QueryUnescape s0);
          padded = (if length s mod 4 = 2 then s @ ''==''
                    else if length s mod 4 = 3 then s @ ''=''
                    else s)
      in case DecodeString RawURLEncoding s of
           Some b \<Rightarrow> Inr b
         | None \<Rightarrow>
             (case DecodeString StdEncoding padded of
                Some b \<Rightarrow> Inr b
              | None \<Rightarrow>
                  (case DecodeString URLEncoding padded of
                     Some b \<Rightarrow> Inr b
                   | None \<Rightarrow> Inl Base64DecodeFailed)))"

text \<open>
  \<^verbatim>\<open>toInt\<close> returns the pair (value, error). \<open>f2i\<close> is Go's conversion \<^verbatim>\<open>int(x)\<close> of a
  \<^verbatim>\<open>float64\<close>, which never fails.
\<close>

fun toInt :: "('f \<Rightarrow> int) \<Rightarrow> 'f json \<Rightarrow> int \<times> toInt_error option" where
  "toInt f2i (JNumber x) = (f2i x, None)"
| "toInt f2i (JString x) =
     (if x = [] then (0, None)
      else (case Atoi x of (n, None) \<Rightarrow> (n, None) | (n, Some e) \<Rightarrow> (n, Some (AtoiFailed e))))"
| "toInt f2i JNull = (0, None)"
| "toInt f2i v = (0, Some UnexpectedType)"

text \<open>The display name: the fragment, percent-decoded when that succeeds, else \<^verbatim>\<open>host:port\<close>.\<close>

definition display_name :: "string \<Rightarrow> string \<Rightarrow> int \<Rightarrow> string" where
  "display_name fragment host port =
     (if fragment = [] then host @ '':'' @ show_int port
      else (case QueryUnescape fragment of (dec, None) \<Rightarrow> dec | (_, Some _) \<Rightarrow> fragment))"

definition parseVless :: "(string \<Rightarrow> string + URL) \<Rightarrow> string \<Rightarrow> parse_error + VlessConfig" where
  "parseVless Parse raw =
     (case Parse raw of
        Inl err \<Rightarrow> Inl (MalformedURI err)
      | Inr u \<Rightarrow>
          (let host = url_Hostname u;
               portStr = (if url_Port u = [] then ''443'' else url_Port u)
           in case Atoi portStr of
                (_, Some err) \<Rightarrow> Inl (InvalidPort err)
              | (port, None) \<Rightarrow>
                  (let uuid = url_Username u;
                       q = url_Query u
                   in Inr \<lparr>vless_Name = display_name (url_Fragment u) host port,
                           vless_UUID = uuid,
                           vless_Server = host,
                           vless_Port = port,
                           vless_Security = Get q ''security'',
                           vless_Type = Get q ''type'',
                           vless_SNI = Get q ''sni'',
                           vless_Host = Get q ''host'',
                           vless_Path = Get q ''path'',
                           vless_Fp = Get q ''fp'',
                           vless_Encryption = Get q ''encryption'',
                           vless_Flow = Get q ''flow'',
                           vless_PublicKey = Get q ''pbk'',
                           vless_ShortID = Get q ''sid''\<rparr>)))"

definition parseSS :: "(string \<Rightarrow> string + URL) \<Rightarrow> string \<Rightarrow> parse_error + SSConfig" where
  "parseSS Parse raw =
     (case Parse raw of
        Inl err \<Rightarrow> Inl (MalformedURI err)
      | Inr u \<Rightarrow>
          (let host = url_Hostname u;
               portStr = (if url_Port u = [] then ''8388'' else url_Port u)
           in case Atoi portStr of
                (_, Some err) \<Rightarrow> Inl (InvalidPort err)
              | (port, None) \<Rightarrow>
                  (let userinfo = url_UserString u
                   in case base64DecodeUserinfo userinfo of
                        Inl err \<Rightarrow> Inl err
                      | Inr decoded \<Rightarrow>
                          (let parts = SplitN2 decoded (CHR '':'')
                           in if length parts \<noteq> 2 then Inl (InvalidUserinfo decoded)
                              else Inr \<lparr>ss_Name = display_name (url_Fragment u) host port,
                                        ss_Method = parts ! 0,
                                        ss_Password = parts ! 1,
                                        ss_Server = host,
                                        ss_Port = port\<rparr>))))"

text \<open>The JSON payload of a \<^verbatim>\<open>vmess://\<close> line; \<^verbatim>\<open>aid\<close> and \<^verbatim>\<open>port\<close> are of type \<^verbatim>\<open>interface{}\<close>.\<close>

record 'f vmessJSON =
  vj_Add :: string
  vj_Aid :: "'f json"
  vj_ID :: string
  vj_Net :: string
  vj_Path :: string
  vj_Port :: "'f json"
  vj_PS :: string
  vj_Scy :: string
  vj_SNI :: string
  vj_TLS :: string
  vj_Type :: string
  vj_Host :: string

text \<open>
  \<^verbatim>\<open>parseVmess\<close>. \<^verbatim>\<open>json.Unmarshal\<close> into a \<^verbatim>\<open>vmessJSON\<close> is the parameter \<open>Unmarshal\<close>; a field
  absent from the payload keeps its zero value (the empty string, or \<open>JNull\<close>). The error
  of \<^verbatim>\<open>toInt\<close> is checked for the port and dropped for the alterId.
\<close>

text \<open>The base64 text of a \<^verbatim>\<open>vmess://\<close> line: the prefix and any \<^verbatim>\<open>#fragment\<close> are cut off.\<close>

definition vmess_payload :: "string \<Rightarrow> string" where
  "vmess_payload raw =
     (let b64 = TrimPrefix raw ''vmess://''
      in if CHR ''#'' \<in> set b64 then takeWhile (\<lambda>c. c \<noteq> CHR ''#'') b64 else b64)"

definition parseVmess ::
  "('f \<Rightarrow> int) \<Rightarrow> (string \<Rightarrow> string + 'f vmessJSON) \<Rightarrow> string \<Rightarrow> parse_error + VmessConfig" where
  "parseVmess f2i Unmarshal raw =
     (case base64DecodeUserinfo (vmess_payload raw) of
        Inl err \<Rightarrow> Inl err
      | Inr data \<Rightarrow>
          (case Unmarshal data of
             Inl err \<Rightarrow> Inl (MalformedJSON err)
           | Inr v \<Rightarrow>
               (case toInt f2i (vj_Port v) of
                  (_, Some err) \<Rightarrow> Inl (PortCoercionFailed err)
                | (port, None) \<Rightarrow>
                    (let aid = fst (toInt f2i (vj_Aid v));
                         name = (if vj_PS v = [] then vj_Add v @ '':'' @ show_int port else vj_PS v);
                         sec = (if vj_Scy v = [] then ''auto'' else vj_Scy v)
                     in Inr \<lparr>vmess_Name = name,
                             vmess_UUID = vj_ID v,
                             vmess_Server = vj_Add v,
                             vmess_Port = port,
                             vmess_Aid = aid,
                             vmess_Security = sec,
                             vmess_Network = vj_Net v,
                             vmess_TLS = vj_TLS v,
                             vmess_SNI = vj_SNI v,
                             vmess_Host = vj_Host v,
                             vmess_Path = vj_Path v\<rparr>))))"

definition parseTrojan :: "(string \<Rightarrow> string + URL) \<Rightarrow> string \<Rightarrow> parse_error + TrojanConfig" where
  "parseTrojan Parse raw =
     (case Parse raw of
        Inl err \<Rightarrow> Inl (MalformedURI err)
      | Inr u \<Rightarrow>
          (let host = url_Hostname u;
               portStr = (if url_Port u = [] then ''443'' else url_Port u)
           in case Atoi portStr of
                (_, Some err) \<Rightarrow> Inl (InvalidPort err)
              | (port, None) \<Rightarrow>
                  (let password = url_Username u;
                       q = url_Query u;
                       security = (if Get q ''security'' = [] then ''tls'' else Get q ''security'')
                   in Inr \<lparr>trojan_Name = display_name (url_Fragment u) host port,
                           trojan_Password = password,
                           trojan_Server = host,
                           trojan_Port = port,
                           trojan_Security = security,
                           trojan_Type = Get q ''type'',
                           trojan_SNI = Get q ''sni'',
                           trojan_Host = Get q ''host'',
                           trojan_Path = Get q ''path'',
                           trojan_Fp = Get q ''fp''\<rparr>)))"

text \<open>
  \<^verbatim>\<open>ParseLine\<close>: the line is trimmed (\<^verbatim>\<open>strings.TrimSpace\<close>, a parameter here) and
  dispatched by its prefix.
\<close>

definition ParseLine ::
  "(string \<Rightarrow> string) \<Rightarrow> (string \<Rightarrow> string + URL) \<Rightarrow> ('f \<Rightarrow> int)
   \<Rightarrow> (string \<Rightarrow> string + 'f vmessJSON) \<Rightarrow> string \<Rightarrow> parse_error + ProxyConfig" where
  "ParseLine TrimSpace Parse f2i Unmarshal line0 =
     (let line = TrimSpace line0
      in if line = [] \<or> HasPrefix line ''#'' then Inl EmptyOrComment
         else if HasPrefix line ''vless://'' then map_sum id Vless (parseVless Parse line)
         else if HasPrefix line ''ss://'' then map_sum id ShadowSocks (parseSS Parse line)
         else if HasPrefix line ''vmess://'' then map_sum id Vmess (parseVmess f2i Unmarshal line)
         else if HasPrefix line ''trojan://'' then map_sum id Trojan (parseTrojan Parse line)
         else Inl (UnsupportedProtocol line))"

section \<open>The liveness checker (\<^verbatim>\<open>package checker\<close>)\<close>

record Result =
  res_Index :: int
  res_Name :: string
  res_Protocol :: string
  res_Server :: string
  res_Port :: int
  res_Alive :: bool
  res_Latency :: int
  res_ExitIP :: string
  res_Country :: string
  res_Error :: string

record ipAPIResponse =
  api_Query :: string
  api_CountryName :: string
  api_Status :: string
  api_Message :: string

text \<open>
  Everything outside the process that one call of \<^verbatim>\<open>CheckConfig\<close> talks to. Errors are
  given by their text (what \<^verbatim>\<open>%v\<close> prints), durations and clock readings in nanoseconds.
  \<^item> \<open>env_Listen\<close>: \<^verbatim>\<open>net.Listen("tcp", "127.0.0.1:0")\<close>, an error or the port of the listener;
  \<^item> \<open>env_GenerateConfig\<close>, \<open>env_Start\<close>: the functions of the package \<^verbatim>\<open>xray\<close>;
  \<^item> \<open>env_now\<close>: the clock when \<^verbatim>\<open>waitForPort\<close> is entered;
  \<^item> \<open>env_DialTimeout k addr d\<close>: the \<open>k\<close>-th call of \<^verbatim>\<open>net.DialTimeout\<close>, whether it
    connected and how long it took;
  \<^item> \<open>env_oversleep k\<close>: how much longer than asked the \<open>k\<close>-th \<^verbatim>\<open>time.Sleep\<close> lasts;
  \<^item> \<open>env_SOCKS5\<close>: the error of \<^verbatim>\<open>proxy.SOCKS5\<close>, if any;
  \<^item> \<open>env_Get timeout\<close>: \<^verbatim>\<open>client.Get\<close> under the client's timeout, an error or the time
    from just before the call to the \<^verbatim>\<open>time.Since\<close> after it;
  \<^item> \<open>env_ReadAll\<close>: \<^verbatim>\<open>io.ReadAll(resp.Body)\<close>; \<open>env_Unmarshal\<close>: \<^verbatim>\<open>json.Unmarshal\<close> of the body.
\<close>

record check_env =
  env_Listen :: "string + int"
  env_GenerateConfig :: "ProxyConfig \<Rightarrow> int \<Rightarrow> string + string"
  env_Start :: "string \<Rightarrow> string + nat"
  env_now :: nat
  env_DialTimeout :: "nat \<Rightarrow> string \<Rightarrow> nat \<Rightarrow> bool \<times> nat"
  env_oversleep :: "nat \<Rightarrow> nat"
  env_SOCKS5 :: "string \<Rightarrow> string option"
  env_Get :: "int \<Rightarrow> string + nat"
  env_ReadAll :: "string + string"
  env_Unmarshal :: "string \<Rightarrow> string + ipAPIResponse"

text \<open>The calls that leave the process, in the order \<^verbatim>\<open>CheckConfig\<close> makes them.\<close>

datatype event =
    EvListen
  | EvGenerateConfig
  | EvStart
  | EvDialTimeout nat
  | EvSOCKS5
  | EvGet
  | EvReadAll
  | EvBodyClose
  | EvStop

definition freePort :: "check_env \<Rightarrow> string + int" where
  "freePort env = (case env_Listen env of Inl err \<Rightarrow> Inl err | Inr port \<Rightarrow> Inr port)"

text \<open>
  The loop of \<^verbatim>\<open>waitForPort\<close>: \<open>now\<close> is the clock at the loop test and \<open>k\<close> the number of
  attempts made. A failed attempt is followed by a sleep of at least 100 ms. The result is
  whether a connection was accepted, and the number of attempts.
\<close>

function waitForPort_loop :: "check_env \<Rightarrow> string \<Rightarrow> nat \<Rightarrow> nat \<Rightarrow> nat \<Rightarrow> bool \<times> nat" where
  "waitForPort_loop env addr deadline now k =
     (if now < deadline then
        (case env_DialTimeout env k addr 200000000 of
           (True, _) \<Rightarrow> (True, Suc k)
         | (False, elapsed) \<Rightarrow>
             waitForPort_loop env addr deadline
               (now + elapsed + (100000000 + env_oversleep env k)) (Suc k))
      else (False, k))"
  by pat_completeness auto
termination
  by (relation "measure (\<lambda>(env, addr, deadline, now, k). deadline - now)") auto

declare waitForPort_loop.simps [simp del]

definition waitForPort :: "check_env \<Rightarrow> string \<Rightarrow> int \<Rightarrow> nat \<Rightarrow> string option \<times> nat" where
  "waitForPort env host port timeout =
     (let addr = host @ '':'' @ show_int port;
          deadline = env_now env + timeout
      in case waitForPort_loop env addr deadline (env_now env) 0 of
           (True, n) \<Rightarrow> (None, n)
         | (False, n) \<Rightarrow> (Some (''timeout waiting for '' @ addr), n))"

text \<open>
  The clock at the \<open>k\<close>-th loop test of \<^verbatim>\<open>waitForPort\<close>, when the loop gets that far: each
  attempt before it took its time and was followed by its sleep. The \<open>k\<close>-th attempt is
  made when this is before the deadline.
\<close>

primrec attempt_start :: "check_env \<Rightarrow> string \<Rightarrow> nat \<Rightarrow> nat" where
  "attempt_start env addr 0 = env_now env"
| "attempt_start env addr (Suc k) =
     attempt_start env addr k + snd (env_DialTimeout env k addr 200000000)
     + (100000000 + env_oversleep env k)"

text \<open>
  \<^verbatim>\<open>CheckConfig\<close> from the readiness wait on, that is the part that runs between the
  start of the engine and the deferred \<^verbatim>\<open>Stop\<close>. It returns the Result and the calls made.
\<close>

definition probe :: "Result \<Rightarrow> int \<Rightarrow> int \<Rightarrow> check_env \<Rightarrow> Result \<times> event list" where
  "probe result socksPort timeout env =
     (case waitForPort env ''127.0.0.1'' socksPort 3000000000 of
        (Some err, n) \<Rightarrow>
          (result\<lparr>res_Error := ''xray not ready: '' @ err\<rparr>, map EvDialTimeout [0..<n])
      | (None, n) \<Rightarrow>
          (let socksAddr = ''127.0.0.1:'' @ show_int socksPort
           in case env_SOCKS5 env socksAddr of
                Some err \<Rightarrow>
                  (result\<lparr>res_Error := ''socks5 dialer: '' @ err\<rparr>,
                   map EvDialTimeout [0..<n] @ [EvSOCKS5])
              | None \<Rightarrow>
                  (case env_Get env timeout of
                     Inl err \<Rightarrow>
                       (result\<lparr>res_Error := ''http get: '' @ err\<rparr>,
                        map EvDialTimeout [0..<n] @ [EvSOCKS5, EvGet])
                   | Inr elapsed \<Rightarrow>
                       (let result = result\<lparr>res_Latency := int elapsed\<rparr>;
                            evs = map EvDialTimeout [0..<n] @ [EvSOCKS5, EvGet, EvReadAll, EvBodyClose]
                        in case env_ReadAll env of
                             Inl err \<Rightarrow> (result\<lparr>res_Error := ''read body: '' @ err\<rparr>, evs)
                           | Inr body \<Rightarrow>
                               (case env_Unmarshal env body of
                                  Inl err \<Rightarrow> (result\<lparr>res_Error := ''json parse: '' @ err\<rparr>, evs)
                                | Inr apiResp \<Rightarrow>
                                    (if api_Status apiResp \<noteq> ''success''
                                     then (result\<lparr>res_Error := ''ip-api: '' @ api_Message apiResp\<rparr>, evs)
                                     else (result\<lparr>res_Alive := True,
                                                  res_ExitIP := api_Query apiResp,
                                                  res_Country := api_CountryName apiResp\<rparr>, evs)))))))"

definition CheckConfig :: "int \<Rightarrow> ProxyConfig \<Rightarrow> int \<Rightarrow> check_env \<Rightarrow> Result \<times> event list" where
  "CheckConfig idx cfg timeout env =
     (let result = \<lparr>res_Index = idx,
                     res_Name = GetName cfg,
                     res_Protocol = GetProtocol cfg,
                     res_Server = GetServer cfg,
                     res_Port = GetPort cfg,
                     res_Alive = False,
                     res_Latency = 0,
                     res_ExitIP = [],
                     res_Country = [],
                     res_Error = []\<rparr>
      in case freePort env of
           Inl err \<Rightarrow> (result\<lparr>res_Error := ''no free port: '' @ err\<rparr>, [EvListen])
         | Inr socksPort \<Rightarrow>
             (case env_GenerateConfig env cfg socksPort of
                Inl err \<Rightarrow>
                  (result\<lparr>res_Error := ''config gen: '' @ err\<rparr>, [EvListen, EvGenerateConfig])
              | Inr configJSON \<Rightarrow>
                  (case env_Start env configJSON of
                     Inl err \<Rightarrow>
                       (result\<lparr>res_Error := ''xray start: '' @ err\<rparr>,
                        [EvListen, EvGenerateConfig, EvStart])
                   | Inr cmd \<Rightarrow>
                       (case probe result socksPort timeout env of
                          (r, evs) \<Rightarrow> (r, [EvListen, EvGenerateConfig, EvStart] @ evs @ [EvStop])))))"

section \<open>The orchestrator \<^verbatim>\<open>CheckAll\<close>\<close>

text \<open>
  \<^verbatim>\<open>CheckAll\<close> runs one sending goroutine (the caller) and one goroutine per worker. The
  shared state: the loop variable of the sending loop, the buffered channel \<^verbatim>\<open>jobs\<close> and
  whether it is closed, where each worker stands, the slice \<^verbatim>\<open>results\<close>, the counter
  \<^verbatim>\<open>done\<close>, and the calls of \<^verbatim>\<open>onResult\<close> made so far (each with its three arguments).
\<close>

datatype worker =
    Idle
  | Busy nat
  | Exited

record pool =
  p_next :: nat
  p_jobs :: "nat list"
  p_closed :: bool
  p_workers :: "worker list"
  p_results :: "Result list"
  p_done :: nat
  p_calls :: "(Result \<times> nat \<times> nat) list"

text \<open>
  The arguments of \<^verbatim>\<open>CheckAll\<close>, and the world: \<open>a_envs idx\<close> is what the check of
  \<^verbatim>\<open>configs[idx]\<close> meets outside the process. \<open>a_onResult\<close> tells whether the callback is
  non-nil.
\<close>

record args =
  a_configs :: "ProxyConfig list"
  a_workers :: int
  a_timeout :: int
  a_onResult :: bool
  a_envs :: "nat \<Rightarrow> check_env"

definition zero_Result :: Result where
  "zero_Result = \<lparr>res_Index = 0, res_Name = [], res_Protocol = [], res_Server = [], res_Port = 0,
                   res_Alive = False, res_Latency = 0, res_ExitIP = [], res_Country = [],
                   res_Error = []\<rparr>"

text \<open>
  The state after \<^verbatim>\<open>make\<close> and the loop that starts the goroutines: the loop
  \<^verbatim>\<open>for i := 0; i < workers; i++\<close> runs \<open>nat workers\<close> times, not at all when
  \<^verbatim>\<open>workers\<close> is zero or negative.
\<close>

definition init :: "args \<Rightarrow> pool" where
  "init a = \<lparr>p_next = 0, p_jobs = [], p_closed = False,
             p_workers = replicate (nat (a_workers a)) Idle,
             p_results = replicate (length (a_configs a)) zero_Result,
             p_done = 0, p_calls = []\<rparr>"

datatype step_result =
    Blocked
  | Panic
  | Next pool

text \<open>
  One step of the caller: send the next index (the channel has capacity \<^verbatim>\<open>total\<close>; a
  send on a full channel blocks), then close the channel, then wait in \<^verbatim>\<open>wg.Wait\<close>.
\<close>

definition main_step :: "args \<Rightarrow> pool \<Rightarrow> step_result" where
  "main_step a s =
     (if p_next s < length (a_configs a) then
        (if length (p_jobs s) < length (a_configs a)
         then Next (s\<lparr>p_jobs := p_jobs s @ [p_next s], p_next := p_next s + 1\<rparr>)
         else Blocked)
      else if \<not> p_closed s then Next (s\<lparr>p_closed := True\<rparr>)
      else Blocked)"

text \<open>
  One step of worker \<open>w\<close>. At the head of \<^verbatim>\<open>for idx := range jobs\<close> it receives an index,
  or leaves the loop when the channel is closed and empty, or blocks. Holding an index
  it calls \<^verbatim>\<open>CheckConfig\<close> and then, under the mutex, stores the Result, increments
  \<^verbatim>\<open>done\<close> and calls \<^verbatim>\<open>onResult\<close>; \<^verbatim>\<open>CheckConfig\<close> touches no shared state, so the call and
  the critical section are one step. An index outside \<^verbatim>\<open>configs\<close> would panic.
\<close>

definition worker_step :: "args \<Rightarrow> nat \<Rightarrow> pool \<Rightarrow> step_result" where
  "worker_step a w s =
     (if w \<ge> length (p_workers s) then Blocked
      else case p_workers s ! w of
        Idle \<Rightarrow>
          (case p_jobs s of
             idx # rest \<Rightarrow> Next (s\<lparr>p_jobs := rest, p_workers := (p_workers s)[w := Busy idx]\<rparr>)
           | [] \<Rightarrow>
               (if p_closed s then Next (s\<lparr>p_workers := (p_workers s)[w := Exited]\<rparr>)
                else Blocked))
      | Busy idx \<Rightarrow>
          (if idx < length (a_configs a) \<and> idx < length (p_results s) then
             (let r = fst (CheckConfig (int idx + 1) (a_configs a ! idx) (a_timeout a) (a_envs a idx));
                  d = p_done s + 1
              in Next (s\<lparr>p_results := (p_results s)[idx := r],
                         p_done := d,
                         p_calls := (if a_onResult a
                                     then p_calls s @ [(r, d, length (a_configs a))]
                                     else p_calls s),
                         p_workers := (p_workers s)[w := Idle]\<rparr>))
           else Panic)
      | Exited \<Rightarrow> Blocked)"

datatype thread =
    Main
  | Worker nat

fun thread_step :: "args \<Rightarrow> thread \<Rightarrow> pool \<Rightarrow> step_result" where
  "thread_step a Main s = main_step a s"
| "thread_step a (Worker w) s = worker_step a w s"

definition runnable :: "args \<Rightarrow> pool \<Rightarrow> thread list" where
  "runnable a s =
     filter (\<lambda>t. thread_step a t s \<noteq> Blocked) (Main # map Worker [0..<length (p_workers s)])"

text \<open>\<^verbatim>\<open>wg.Wait\<close> returns: the channel is closed and every worker has left its loop.\<close>

definition final :: "pool \<Rightarrow> bool" where
  "final s \<longleftrightarrow> p_closed s \<and> list_all (\<lambda>w. w = Exited) (p_workers s)"

text \<open>The number of steps a state still has in it; every step lowers it.\<close>

fun weight :: "worker \<Rightarrow> nat" where
  "weight Idle = 1"
| "weight (Busy idx) = 2"
| "weight Exited = 0"

definition steps_left :: "args \<Rightarrow> pool \<Rightarrow> nat" where
  "steps_left a s =
     4 * (length (a_configs a) - p_next s) + 3 * length (p_jobs s)
     + (if p_closed s then 0 else 1) + sum_list (map weight (p_workers s))"

lemma nth_le_sum_list_map:
  fixes f :: "'a \<Rightarrow> nat"
  shows "w < length ws \<Longrightarrow> f (ws ! w) \<le> sum_list (map f ws)"
  by (rule member_le_sum_list) simp_all

lemma sum_list_map_update:
  fixes f :: "'a \<Rightarrow> nat"
  shows "w < length ws \<Longrightarrow>
    sum_list (map f (ws[w := x])) = sum_list (map f ws) + f x - f (ws ! w)"
  by (simp add: map_update sum_list_update)

lemma main_step_decreases: "main_step a s = Next s' \<Longrightarrow> steps_left a s' < steps_left a s"
  by (auto simp add: main_step_def steps_left_def split: if_splits)

lemma worker_step_decreases:
  assumes "worker_step a w s = Next s'"
  shows "steps_left a s' < steps_left a s"
proof -
  from assms have w: "w < length (p_workers s)"
    by (auto simp add: worker_step_def split: if_splits)
  show ?thesis
    using assms nth_le_sum_list_map[OF w, of weight]
    by (auto simp add: worker_step_def steps_left_def Let_def sum_list_map_update[OF w]
             split: if_splits worker.splits list.splits)
qed

lemma thread_step_decreases: "thread_step a t s = Next s' \<Longrightarrow> steps_left a s' < steps_left a s"
  by (cases t) (auto dest: main_step_decreases worker_step_decreases)

text \<open>
  A run under a scheduler: as long as \<^verbatim>\<open>wg.Wait\<close> has not returned, the scheduler picks
  one of the goroutines that can move (\<open>pick t\<close> at the \<open>t\<close>-th step) and that one moves.
  \<open>None\<close> is a deadlock or a panic.
\<close>

function exec :: "args \<Rightarrow> (nat \<Rightarrow> nat) \<Rightarrow> nat \<Rightarrow> pool \<Rightarrow> pool option" where
  "exec a pick t s =
     (if final s then Some s
      else case runnable a s of
        [] \<Rightarrow> None
      | th # ths \<Rightarrow>
          (case thread_step a ((th # ths) ! (pick t mod length (th # ths))) s of
             Next s' \<Rightarrow> exec a pick (Suc t) s'
           | Panic \<Rightarrow> None
           | Blocked \<Rightarrow> None))"
  by pat_completeness auto
termination
  by (relation "measure (\<lambda>(a, pick, t, s). steps_left a s)") (auto dest: thread_step_decreases)

declare exec.simps [simp del]

text \<open>\<^verbatim>\<open>CheckAll\<close> returns the slice \<^verbatim>\<open>results\<close> once \<^verbatim>\<open>wg.Wait\<close> has returned.\<close>

definition CheckAll_run :: "args \<Rightarrow> (nat \<Rightarrow> nat) \<Rightarrow> pool option" where
  "CheckAll_run a pick = exec a pick 0 (init a)"

definition CheckAll :: "args \<Rightarrow> (nat \<Rightarrow> nat) \<Rightarrow> Result list option" where
  "CheckAll a pick = map_option p_results (CheckAll_run a pick)"

subsection \<open>Invariant of the worker pool\<close>

text \<open>\<open>expected a i\<close> is the Result of \<^verbatim>\<open>CheckConfig(i+1, configs[i], timeout)\<close>.\<close>

definition expected :: "args \<Rightarrow> nat \<Rightarrow> Result" where
  "expected a i = fst (CheckConfig (int i + 1) (a_configs a ! i) (a_timeout a) (a_envs a i))"

fun busy :: "worker \<Rightarrow> nat" where
  "busy (Busy idx) = 1"
| "busy w = 0"

text \<open>
  Every index is still to be sent, or in the channel, or held by a worker, or its slot of
  \<^verbatim>\<open>results\<close> holds the Result of its check.
\<close>

definition covered :: "args \<Rightarrow> pool \<Rightarrow> nat \<Rightarrow> bool" where
  "covered a s i \<longleftrightarrow>
     p_next s \<le> i \<or> i \<in> set (p_jobs s) \<or> Busy i \<in> set (p_workers s)
     \<or> p_results s ! i = expected a i"

definition Inv :: "args \<Rightarrow> pool \<Rightarrow> bool" where
  "Inv a s \<longleftrightarrow>
     length (p_results s) = length (a_configs a)
   \<and> p_next s \<le> length (a_configs a)
   \<and> (\<forall>j \<in> set (p_jobs s). j < length (a_configs a))
   \<and> (\<forall>j. Busy j \<in> set (p_workers s) \<longrightarrow> j < length (a_configs a))
   \<and> (p_closed s \<longrightarrow> p_next s = length (a_configs a))
   \<and> (Exited \<in> set (p_workers s) \<longrightarrow> p_jobs s = [] \<and> p_closed s)
   \<and> (\<forall>i < length (a_configs a). covered a s i)
   \<and> p_done s + length (p_jobs s) + sum_list (map busy (p_workers s)) = p_next s
   \<and> length (p_calls s) = (if a_onResult a then p_done s else 0)"


subsection \<open>Inputs for the examples\<close>

definition url_ss_three :: URL where
  "url_ss_three = \<lparr>url_Hostname = ''1.2.3.4'', url_Port = ''8388'',
                    url_Username = ''YWVzLTI1Ni1nY206cGFzczp3b3Jk'',
                    url_UserString = ''YWVzLTI1Ni1nY206cGFzczp3b3Jk'',
                    url_Query = Map.empty, url_Fragment = ''node''\<rparr>"

definition url_ss_one :: URL where
  "url_ss_one = \<lparr>url_Hostname = ''1.2.3.4'', url_Port = [],
                  url_Username = ''bm9jb2xvbg=='',
                  url_UserString = ''bm9jb2xvbg=='',
                  url_Query = Map.empty, url_Fragment = []\<rparr>"

definition url_vless :: URL where
  "url_vless = \<lparr>url_Hostname = ''example.com'', url_Port = [],
                 url_Username = ''uuid'', url_UserString = ''uuid'',
                 url_Query = [''type'' \<mapsto> [''ws'']], url_Fragment = ''My%20Node''\<rparr>"

definition url_trojan :: URL where
  "url_trojan = \<lparr>url_Hostname = ''example.com'', url_Port = [],
                 url_Username = ''secret'', url_UserString = ''secret'',
                 url_Query = Map.empty, url_Fragment = []\<rparr>"

definition url_ss_badport :: URL where
  "url_ss_badport = \<lparr>url_Hostname = ''1.2.3.4'', url_Port = ''99999999999999999999'',
                      url_Username = ''bm9jb2xvbg=='',
                      url_UserString = ''bm9jb2xvbg=='',
                      url_Query = Map.empty, url_Fragment = []\<rparr>"

definition url_ss_noport :: URL where
  "url_ss_noport = \<lparr>url_Hostname = ''1.2.3.4'', url_Port = [],
                     url_Username = ''YWVzLTI1Ni1nY206cGFzc3dvcmQ='',
                     url_UserString = ''YWVzLTI1Ni1nY206cGFzc3dvcmQ='',
                     url_Query = Map.empty, url_Fragment = []\<rparr>"

definition Parse_examples :: "string \<Rightarrow> string + URL" where
  "Parse_examples raw =
     (if raw = ''ss://YWVzLTI1Ni1nY206cGFzczp3b3Jk@1.2.3.4:8388#node'' then Inr url_ss_three
      else if raw = ''ss://bm9jb2xvbg==@1.2.3.4'' then Inr url_ss_one
      else if raw = ''ss://bm9jb2xvbg==@1.2.3.4:99999999999999999999'' then Inr url_ss_badport
      else if raw = ''ss://YWVzLTI1Ni1nY206cGFzc3dvcmQ=@1.2.3.4'' then Inr url_ss_noport
      else if raw = ''vless://uuid@example.com?type=ws#My%20Node'' then Inr url_vless
      else if raw = ''trojan://secret@example.com'' then Inr url_trojan
      else Inl ''invalid URI'')"

definition dq :: "string \<Rightarrow> string" where
  "dq s = CHR 0x22 # s @ [CHR 0x22]"

definition json_aid_bool :: string where
  "json_aid_bool = ''{'' @ dq ''add'' @ '':'' @ dq ''example.com'' @ '','' @ dq ''aid'' @ '':true,''
                   @ dq ''port'' @ '':'' @ dq ''443'' @ ''}''"

definition json_port_list :: string where
  "json_port_list = ''{'' @ dq ''add'' @ '':'' @ dq ''example.com'' @ '','' @ dq ''port'' @ '':[443]}''"

definition vj_empty :: "int vmessJSON" where
  "vj_empty = \<lparr>vj_Add = [], vj_Aid = JNull, vj_ID = [], vj_Net = [], vj_Path = [], vj_Port = JNull,
               vj_PS = [], vj_Scy = [], vj_SNI = [], vj_TLS = [], vj_Type = [], vj_Host = []\<rparr>"

definition Unmarshal_examples :: "string \<Rightarrow> string + int vmessJSON" where
  "Unmarshal_examples data =
     (if data = json_aid_bool
      then Inr (vj_empty\<lparr>vj_Add := ''example.com'', vj_Aid := JBool True, vj_Port := JString ''443''\<rparr>)
      else if data = json_port_list
      then Inr (vj_empty\<lparr>vj_Add := ''example.com'', vj_Port := JArray [JNumber 443]\<rparr>)
      else Inl ''invalid character'')"

definition json_tilde :: string where
  "json_tilde = ''{'' @ dq ''ps'' @ '':'' @ dq ''a~'' @ ''}''"

definition cfg0 :: ProxyConfig where
  "cfg0 = ShadowSocks \<lparr>ss_Name = ''n'', ss_Method = ''aes-256-gcm'', ss_Password = ''pw'',
                        ss_Server = ''1.2.3.4'', ss_Port = 8388\<rparr>"

definition env0 :: check_env where
  "env0 = \<lparr>env_Listen = Inl ''address in use'',
           env_GenerateConfig = (\<lambda>cfg port. Inr ''{}''),
           env_Start = (\<lambda>doc. Inr 1),
           env_now = 0,
           env_DialTimeout = (\<lambda>k addr d. (False, d)),
           env_oversleep = (\<lambda>k. 0),
           env_SOCKS5 = (\<lambda>addr. None),
           env_Get = (\<lambda>timeout. Inl ''timeout''),
           env_ReadAll = Inl ''eof'',
           env_Unmarshal = (\<lambda>body. Inl ''bad'')\<rparr>"

definition env_never_ready :: check_env where
  "env_never_ready = env0\<lparr>env_Listen := Inr 40123\<rparr>"

text \<open>
  An engine that refuses the first ten connections, each refusal taking the whole 200 ms,
  and would accept from the eleventh attempt on.
\<close>

definition env_late_accept :: check_env where
  "env_late_accept = env0\<lparr>env_Listen := Inr 40123,
       env_DialTimeout := (\<lambda>k addr d. (10 \<le> k, d))\<rparr>"

definition env_geo_fail :: check_env where
  "env_geo_fail = env0\<lparr>env_Listen := Inr 40123,
       env_DialTimeout := (\<lambda>k addr d. (k \<ge> 2, 1000000)),
       env_Get := (\<lambda>timeout. Inr 250000000),
       env_ReadAll := Inr ''{}'',
       env_Unmarshal := (\<lambda>body. Inr \<lparr>api_Query = [], api_CountryName = [],
                                        api_Status = ''fail'', api_Message = ''private range''\<rparr>)\<rparr>"

text \<open>A scheduler given by its first choices.\<close>

fun sched :: "nat list \<Rightarrow> nat \<Rightarrow> nat" where
  "sched [] t = 0"
| "sched (x # xs) 0 = x"
| "sched (x # xs) (Suc t) = sched xs t"

definition pick1 :: "nat \<Rightarrow> nat" where
  "pick1 = sched [0, 0, 1, 2, 2, 1, 0, 0, 0]"


definition args1 :: args where
  "args1 = \<lparr>a_configs = [cfg0, cfg0], a_workers = 2, a_timeout = 10000000000, a_onResult = True,
            a_envs = (\<lambda>i. if i = 0 then env0 else env_never_ready)\<rparr>"

lemmas show_simps = show_int_def show_nat.simps char_of_eq_iff

section \<open>Properties of the parser\<close>

lemmas b64_simps = DecodeString_def RawURLEncoding_def StdEncoding_def URLEncoding_def
  encodeURL_def encodeStd_def quantum_bytes_def is_newline_def index_of_def skip_newlines_def
 
  char_of_eq_iff base64DecodeUserinfo_def QueryUnescape_def ishex_def unhex_def ord_def

lemmas parse_simps = Atoi_def ParseUint_def is_digit_def ord_def SplitN2_def display_name_def show_simps
  QueryUnescape_def ishex_def unhex_def Get_def

lemma decode_three: "base64DecodeUserinfo ''YWVzLTI1Ni1nY206cGFzczp3b3Jk'' = Inr ''aes-256-gcm:pass:word''"
  by (simp add: b64_simps)

lemma decode_one: "base64DecodeUserinfo ''bm9jb2xvbg=='' = Inr ''nocolon''"
  by (simp add: b64_simps)

lemma SplitN2_colon:
  "CHR '':'' \<in> set s \<Longrightarrow>
   SplitN2 s (CHR '':'') = [takeWhile (\<lambda>x. x \<noteq> CHR '':'') s, tl (dropWhile (\<lambda>x. x \<noteq> CHR '':'') s)]"
  by (simp add: SplitN2_def)

lemma takeWhile_tl_dropWhile:
  "c \<in> set s \<Longrightarrow> takeWhile (\<lambda>x. x \<noteq> c) s @ c # tl (dropWhile (\<lambda>x. x \<noteq> c) s) = s"
  by (induction s) auto

lemma notin_takeWhile: "c \<notin> set (takeWhile (\<lambda>x. x \<noteq> c) s)"
  by (induction s) auto

lemma digits_value_bound:
  "list_all is_digit s \<Longrightarrow> digits_value n s < (n + 1) * 10 ^ length s"
proof (induction s arbitrary: n)
  case Nil
  then show ?case by simp
next
  case (Cons c s)
  then have c9: "ord c - 48 \<le> 9" by (auto simp add: is_digit_def)
  have "digits_value n (c # s) = digits_value (n * 10 + (ord c - 48)) s" by simp
  also have "\<dots> < (n * 10 + (ord c - 48) + 1) * 10 ^ length s"
    using Cons by simp
  also have "\<dots> \<le> ((n + 1) * 10) * 10 ^ length s"
    using c9 by (intro mult_le_mono1) simp
  also have "\<dots> = (n + 1) * 10 ^ length (c # s)" by (simp add: algebra_simps)
  finally show ?case .
qed

lemma digits_value_mono: "n \<le> digits_value n s"
proof (induction s arbitrary: n)
  case Nil
  then show ?case by simp
next
  case (Cons c s)
  have "n \<le> n * 10 + (ord c - 48)" by simp
  also have "\<dots> \<le> digits_value (n * 10 + (ord c - 48)) s" by (rule Cons.IH)
  finally show ?case by simp
qed

lemma ParseUint_digits_value:
  "list_all is_digit s \<Longrightarrow> digits_value n s < 1844674407370955162 \<Longrightarrow>
   ParseUint_digits n s = (digits_value n s, None)"
proof (induction s arbitrary: n)
  case Nil
  then show ?case by simp
next
  case (Cons c s)
  let ?n1 = "n * 10 + (ord c - 48)"
  have v: "digits_value n (c # s) = digits_value ?n1 s" by simp
  have "n \<le> ?n1" by simp
  also have "?n1 \<le> digits_value ?n1 s" by (rule digits_value_mono)
  finally have "n < 1844674407370955162" and "?n1 < 1844674407370955162"
    using Cons.prems(2) digits_value_mono[of ?n1 s] by simp_all
  moreover have "ParseUint_digits ?n1 s = (digits_value ?n1 s, None)"
    using Cons.prems by (intro Cons.IH) simp_all
  ultimately show ?case using Cons.prems(1) by simp
qed

lemma numeric_no_sign: "numeric s \<Longrightarrow> \<exists>c cs. s = c # cs \<and> c \<noteq> CHR ''-'' \<and> c \<noteq> CHR ''+''"
  by (cases s) (auto simp add: numeric_def is_digit_def ord_def)

lemma Atoi_numeric:
  assumes "numeric s"
  shows "Atoi s = (int (digits_value 0 s), None)"
proof -
  from assms have d: "list_all is_digit s" and l: "length s \<le> 18" and ne: "s \<noteq> []"
    by (simp_all add: numeric_def)
  have "digits_value 0 s < (0 + 1) * 10 ^ length s" using d by (rule digits_value_bound)
  also have "\<dots> \<le> 10 ^ 18" using l by (simp del: power_numeral add: power_increasing)
  finally have b: "digits_value 0 s < 1000000000000000000" by simp
  then have "ParseUint_digits 0 s = (digits_value 0 s, None)"
    using d by (intro ParseUint_digits_value) simp_all
  moreover from numeric_no_sign[OF assms] obtain c cs where "s = c # cs" "c \<noteq> CHR ''-''" "c \<noteq> CHR ''+''"
    by blast
  ultimately show ?thesis using b by (simp add: Atoi_def ParseUint_def)
qed

text \<open>
  \<^verbatim>\<open>Atoi\<close> at the bounds, and on digits that overflow before a byte that is no digit: the
  range error comes first, with the bound as the value.
\<close>

lemma Atoi_examples:
  "Atoi ''443'' = (443, None)"
  "Atoi ''-9223372036854775808'' = (- 9223372036854775808, None)"
  "Atoi ''9223372036854775808'' = (9223372036854775807, Some ErrRange)"
  "Atoi ''99999999999999999999'' = (9223372036854775807, Some ErrRange)"
  "Atoi ''99999999999999999999x'' = (9223372036854775807, Some ErrRange)"
  "Atoi ''12x'' = (0, Some ErrSyntax)"
  "Atoi ''+'' = (0, Some ErrSyntax)"
  by (simp_all add: Atoi_def ParseUint_def is_digit_def ord_def)

lemma toInt_examples:
  "toInt f2i (JString ''443'') = (443, None)"
  "toInt f2i (JString ''12x'') = (0, Some (AtoiFailed ErrSyntax))"
  "toInt f2i (JString ''99999999999999999999x'') = (9223372036854775807, Some (AtoiFailed ErrRange))"
  by (simp_all add: Atoi_examples)

lemma decode_json_aid_bool:
  "base64DecodeUserinfo (vmess_payload ''vmess://eyJhZGQiOiJleGFtcGxlLmNvbSIsImFpZCI6dHJ1ZSwicG9ydCI6IjQ0MyJ9#name'')
     = Inr json_aid_bool"
  by (simp add: vmess_payload_def TrimPrefix_def HasPrefix_def json_aid_bool_def dq_def b64_simps)

lemma decode_json_port_list:
  "base64DecodeUserinfo (vmess_payload ''vmess://eyJhZGQiOiJleGFtcGxlLmNvbSIsInBvcnQiOls0NDNdfQ=='')
     = Inr json_port_list"
  by (simp add: vmess_payload_def TrimPrefix_def HasPrefix_def json_port_list_def dq_def b64_simps)

lemma json_texts_differ: "json_port_list \<noteq> json_aid_bool"
  by (simp add: json_port_list_def json_aid_bool_def dq_def)

lemma decode_noport:
  "base64DecodeUserinfo ''YWVzLTI1Ni1nY206cGFzc3dvcmQ='' = Inr ''aes-256-gcm:password''"
  by (simp add: b64_simps)

text \<open>A line with one of the four prefixes goes to the parser of its scheme.\<close>

lemma HasPrefix_append: "HasPrefix s p \<longleftrightarrow> (\<exists>r. s = p @ r)"
  unfolding HasPrefix_def by (metis append_eq_conv_conj append_take_drop_id)

lemma ParseLine_dispatch:
  "HasPrefix (TrimSpace l) ''vless://'' \<Longrightarrow>
     ParseLine TrimSpace Parse f2i Unmarshal l = map_sum id Vless (parseVless Parse (TrimSpace l))"
  "HasPrefix (TrimSpace l) ''ss://'' \<Longrightarrow>
     ParseLine TrimSpace Parse f2i Unmarshal l = map_sum id ShadowSocks (parseSS Parse (TrimSpace l))"
  "HasPrefix (TrimSpace l) ''vmess://'' \<Longrightarrow>
     ParseLine TrimSpace Parse f2i Unmarshal l
       = map_sum id Vmess (parseVmess f2i Unmarshal (TrimSpace l))"
  "HasPrefix (TrimSpace l) ''trojan://'' \<Longrightarrow>
     ParseLine TrimSpace Parse f2i Unmarshal l = map_sum id Trojan (parseTrojan Parse (TrimSpace l))"
  by (auto simp add: ParseLine_def HasPrefix_append Let_def)

lemma ParseLine_empty_or_comment:
  "TrimSpace l = [] \<or> HasPrefix (TrimSpace l) ''#'' \<Longrightarrow>
     ParseLine TrimSpace Parse f2i Unmarshal l = Inl EmptyOrComment"
  by (simp add: ParseLine_def)

subsection \<open>Encoding, then decoding\<close>

lemma ord_less_256: "ord c < 256"
  unfolding ord_def by (metis of_char_mod_256 mod_less_divisor zero_less_numeral)

lemma char_of_ord: "char_of (ord c) = c"
  by (simp add: ord_def)

lemma sextets_sum:
  fixes val :: nat
  assumes "val < 16777216"
  shows "(val div 262144 mod 64) * 262144 + (val div 4096 mod 64) * 4096
         + (val div 64 mod 64) * 64 + val mod 64 = val"
proof -
  have d2: "val div 4096 = val div 64 div 64" and d3: "val div 262144 = val div 64 div 64 div 64"
    by (simp_all add: div_mult2_eq)
  have "val div 262144 < 64" using assms by (simp add: less_mult_imp_div_less)
  then have m3: "val div 262144 mod 64 = val div 262144" by simp
  have e1: "val = val div 64 * 64 + val mod 64" by simp
  have e2: "val div 64 = val div 4096 * 64 + val div 64 mod 64" unfolding d2 by simp
  have e3: "val div 4096 = val div 262144 * 64 + val div 4096 mod 64" unfolding d2 d3 by simp
  show ?thesis unfolding m3 using e1 e2 e3 by linarith
qed

lemma bytes_of_val:
  fixes a b c :: nat
  assumes "a < 256" "b < 256" "c < 256"
  shows "(a * 65536 + b * 256 + c) div 65536 mod 256 = a"
    and "(a * 65536 + b * 256 + c) div 256 mod 256 = b"
    and "(a * 65536 + b * 256 + c) mod 256 = c"
proof -
  have m: "\<And>x y::nat. y < 256 \<Longrightarrow> (x * 256 + y) mod 256 = y" by simp
  have q: "\<And>x y::nat. y < 256 \<Longrightarrow> (x * 256 + y) div 256 = x" by simp
  have v: "a * 65536 + b * 256 + c = (a * 256 + b) * 256 + c" by simp
  have d: "\<And>x::nat. x div 65536 = x div 256 div 256" by (simp add: div_mult2_eq)
  show "(a * 65536 + b * 256 + c) mod 256 = c"
    by (simp only: v m[OF assms(3)])
  show "(a * 65536 + b * 256 + c) div 256 mod 256 = b"
    by (simp only: v q[OF assms(3)] m[OF assms(2)])
  show "(a * 65536 + b * 256 + c) div 65536 mod 256 = a"
    using assms(1) by (simp only: v d q[OF assms(3)] q[OF assms(2)] mod_less)
qed

lemma val_less:
  fixes a b c :: nat
  assumes "a < 256" "b < 256" "c < 256"
  shows "a * 65536 + b * 256 + c < 16777216"
  using assms by linarith

lemma quantum_bytes_val4:
  assumes "val < 16777216"
  shows "quantum_bytes [val div 262144 mod 64, val div 4096 mod 64, val div 64 mod 64, val mod 64]
         = [char_of (val div 65536 mod 256), char_of (val div 256 mod 256), char_of (val mod 256)]"
  by (simp add: quantum_bytes_def Let_def sextets_sum[OF assms])

lemma quantum_bytes_short3: "quantum_bytes [x, y, z] = take 2 (quantum_bytes [x, y, z, 0])"
  by (simp add: quantum_bytes_def Let_def)

lemma quantum_bytes_short2: "quantum_bytes [x, y] = take 1 (quantum_bytes [x, y, 0, 0])"
  by (simp add: quantum_bytes_def Let_def)

lemma quantum_bytes_val3:
  assumes "val < 16777216" and "val mod 64 = 0"
  shows "quantum_bytes [val div 262144 mod 64, val div 4096 mod 64, val div 64 mod 64]
         = [char_of (val div 65536 mod 256), char_of (val div 256 mod 256)]"
proof -
  have "quantum_bytes [val div 262144 mod 64, val div 4096 mod 64, val div 64 mod 64]
        = take 2 (quantum_bytes [val div 262144 mod 64, val div 4096 mod 64, val div 64 mod 64,
                                 val mod 64])"
    by (simp only: quantum_bytes_short3 assms(2))
  also have "\<dots> = take 2 [char_of (val div 65536 mod 256), char_of (val div 256 mod 256),
                             char_of (val mod 256)]"
    by (simp only: quantum_bytes_val4[OF assms(1)])
  finally show ?thesis by simp
qed

lemma quantum_bytes_val2:
  assumes "val < 16777216" and "val mod 64 = 0" and "val div 64 mod 64 = 0"
  shows "quantum_bytes [val div 262144 mod 64, val div 4096 mod 64]
         = [char_of (val div 65536 mod 256)]"
proof -
  have "quantum_bytes [val div 262144 mod 64, val div 4096 mod 64]
        = take 1 (quantum_bytes [val div 262144 mod 64, val div 4096 mod 64, val div 64 mod 64,
                                 val mod 64])"
    by (simp only: quantum_bytes_short2 assms(2,3))
  also have "\<dots> = take 1 [char_of (val div 65536 mod 256), char_of (val div 256 mod 256),
                             char_of (val mod 256)]"
    by (simp only: quantum_bytes_val4[OF assms(1)])
  finally show ?thesis by simp
qed

lemma index_from_nth:
  "distinct xs \<Longrightarrow> i < length xs \<Longrightarrow> index_from k (xs ! i) xs = Some (k + i)"
proof (induction xs arbitrary: i k)
  case Nil
  then show ?case by simp
next
  case (Cons x xs)
  then show ?case by (cases i) auto
qed

lemma index_from_notin: "x \<notin> set xs \<Longrightarrow> index_from k x xs = None"
  by (induction xs arbitrary: k) auto

lemma index_of_nth: "distinct xs \<Longrightarrow> i < length xs \<Longrightarrow> index_of (xs ! i) xs = Some i"
  by (simp add: index_of_def index_from_nth)

lemma index_of_notin: "x \<notin> set xs \<Longrightarrow> index_of x xs = None"
  by (simp add: index_of_def index_from_notin)

lemma encodeStd_split:
  "encodeStd = ''ABCDEFGHIJKLMNOPQRSTUVWXYZabcdefghijklmnopqrstuvwxyz0123456789'' @ ''+/''"
  by (simp add: encodeStd_def)

lemma encodeURL_split:
  "encodeURL = ''ABCDEFGHIJKLMNOPQRSTUVWXYZabcdefghijklmnopqrstuvwxyz0123456789'' @ ''-_''"
  by (simp add: encodeURL_def)

lemma length_alphabets: "length encodeStd = 64" "length encodeURL = 64"
  by (simp_all add: encodeStd_def encodeURL_def)

lemma distinct_alphabets: "distinct encodeStd" "distinct encodeURL"
  by (simp_all add: encodeStd_def encodeURL_def)

lemma alphabets_agree: "i < 62 \<Longrightarrow> encodeStd ! i = encodeURL ! i"
  unfolding encodeStd_split encodeURL_split by (simp only: nth_append) simp

lemma alphabets_last:
  "encodeStd ! 62 = CHR ''+''" "encodeStd ! 63 = CHR ''/''"
  "encodeURL ! 62 = CHR ''-''" "encodeURL ! 63 = CHR ''_''"
  unfolding encodeStd_split encodeURL_split by (simp_all add: nth_append)

lemma alphabets_notin:
  "CHR ''+'' \<notin> set encodeURL" "CHR ''/'' \<notin> set encodeURL"
  "CHR ''-'' \<notin> set encodeStd" "CHR ''_'' \<notin> set encodeStd"
  "CHR ''='' \<notin> set encodeStd" "CHR ''='' \<notin> set encodeURL"
  "CHR ''%'' \<notin> set encodeStd" "CHR ''%'' \<notin> set encodeURL"
  "CHR ''+'' \<notin> set ''ABCDEFGHIJKLMNOPQRSTUVWXYZabcdefghijklmnopqrstuvwxyz0123456789''"
  by (simp_all add: encodeStd_def encodeURL_def)

lemma decode_from_rejects: "rejects d c \<Longrightarrow> decode_from d vs (c # cs) = None"
  by (simp add: rejects_def)

lemma all_less_64_split:
  assumes "\<And>v. v < 62 \<Longrightarrow> P v" and "P 62" and "P 63"
  shows "\<forall>v < (64::nat). P v"
proof (intro allI impI)
  fix v :: nat assume "v < 64"
  then have "v < 62 \<or> v = 62 \<or> v = 63" by linarith
  with assms show "P v" by blast
qed

lemma reads_same_alphabet:
  assumes "distinct (alphabet e)" "length (alphabet e) = 64" "alphabet d = alphabet e"
    and "case padChar e of None \<Rightarrow> True | Some p \<Rightarrow> p \<notin> set (alphabet e) \<and> \<not> is_newline p"
  shows "reads d e"
  using assms
  by (auto simp add: reads_def index_of_nth index_of_notin split: option.splits)

lemma reads_Raw_URL: "reads RawURLEncoding URLEncoding"
  by (rule reads_same_alphabet)
     (simp_all add: RawURLEncoding_def URLEncoding_def distinct_alphabets length_alphabets
        alphabets_notin is_newline_def)

lemma reads_URL_URL: "reads URLEncoding URLEncoding"
  by (rule reads_same_alphabet)
     (simp_all add: URLEncoding_def distinct_alphabets length_alphabets alphabets_notin
        is_newline_def)

lemma reads_Raw_Raw: "reads RawURLEncoding RawURLEncoding"
  by (rule reads_same_alphabet)
     (simp_all add: RawURLEncoding_def distinct_alphabets length_alphabets)

lemma reads_Std_Std: "reads StdEncoding StdEncoding"
  by (rule reads_same_alphabet)
     (simp_all add: StdEncoding_def distinct_alphabets length_alphabets alphabets_notin
        is_newline_def)

lemma reads_Std_URL: "reads StdEncoding URLEncoding"
proof -
  have "\<forall>v < 64. index_of (encodeURL ! v) encodeStd = Some v
                \<or> rejects StdEncoding (encodeURL ! v)"
  proof (rule all_less_64_split)
    fix v :: nat assume "v < 62"
    then show "index_of (encodeURL ! v) encodeStd = Some v \<or> rejects StdEncoding (encodeURL ! v)"
      using alphabets_agree[of v] index_of_nth[of encodeStd v]
      by (simp add: distinct_alphabets length_alphabets)
  qed (simp_all add: alphabets_last rejects_def StdEncoding_def index_of_notin alphabets_notin
         is_newline_def)
  then show ?thesis
    by (simp add: reads_def StdEncoding_def URLEncoding_def index_of_notin alphabets_notin
          is_newline_def)
qed

lemma reads_Raw_Std: "reads RawURLEncoding StdEncoding"
proof -
  have "\<forall>v < 64. index_of (encodeStd ! v) encodeURL = Some v
                \<or> rejects RawURLEncoding (encodeStd ! v)"
  proof (rule all_less_64_split)
    fix v :: nat assume "v < 62"
    then show "index_of (encodeStd ! v) encodeURL = Some v \<or> rejects RawURLEncoding (encodeStd ! v)"
      using alphabets_agree[of v] index_of_nth[of encodeURL v]
      by (simp add: distinct_alphabets length_alphabets)
  qed (simp_all add: alphabets_last rejects_def RawURLEncoding_def index_of_notin alphabets_notin
         is_newline_def)
  then show ?thesis
    by (simp add: reads_def StdEncoding_def RawURLEncoding_def index_of_notin alphabets_notin
          is_newline_def)
qed

lemma reads_sextet:
  assumes "reads d e"
  shows "index_of (alphabet e ! (x mod 64)) (alphabet d) = Some (x mod 64)
         \<or> (rejects d (alphabet e ! (x mod 64)) \<and> \<not> reads_all d e)"
proof -
  have "x mod 64 < 64" by simp
  with assms have "index_of (alphabet e ! (x mod 64)) (alphabet d) = Some (x mod 64)
         \<or> rejects d (alphabet e ! (x mod 64))"
    unfolding reads_def by blast
  moreover have "rejects d (alphabet e ! (x mod 64)) \<Longrightarrow> \<not> reads_all d e"
    using \<open>x mod 64 < 64\<close> unfolding rejects_def reads_all_def by force
  ultimately show ?thesis by blast
qed

lemma accept_or_reject_step:
  assumes "index_of c (alphabet d) = Some v \<or> (rejects d c \<and> \<not> R)"
    and "length vs < 3"
    and "decode_from d (vs @ [v]) cs = Some r \<or> (decode_from d (vs @ [v]) cs = None \<and> \<not> R)"
  shows "decode_from d vs (c # cs) = Some r \<or> (decode_from d vs (c # cs) = None \<and> \<not> R)"
  using assms(1)
proof
  assume "index_of c (alphabet d) = Some v"
  with assms(2) have "decode_from d vs (c # cs) = decode_from d (vs @ [v]) cs" by simp
  with assms(3) show ?thesis by simp
next
  assume r: "rejects d c \<and> \<not> R"
  then have "decode_from d vs (c # cs) = None"
    using decode_from_rejects[of d c vs cs] by blast
  with r show ?thesis by blast
qed

lemma accept_or_reject_last:
  assumes "index_of c (alphabet d) = Some v \<or> (rejects d c \<and> \<not> R)"
    and "length vs = 3"
    and "decode_from d [] cs = Some r \<or> (decode_from d [] cs = None \<and> \<not> R)"
  shows "decode_from d vs (c # cs) = Some (quantum_bytes (vs @ [v]) @ r)
         \<or> (decode_from d vs (c # cs) = None \<and> \<not> R)"
  using assms(1)
proof
  assume "index_of c (alphabet d) = Some v"
  with assms(2) have "decode_from d vs (c # cs)
      = map_option (\<lambda>r. quantum_bytes (vs @ [v]) @ r) (decode_from d [] cs)" by simp
  with assms(3) show ?thesis by auto
next
  assume r: "rejects d c \<and> \<not> R"
  then have "decode_from d vs (c # cs) = None"
    using decode_from_rejects[of d c vs cs] by blast
  with r show ?thesis by blast
qed

lemma decode_tail_none:
  assumes "reads d e" and "padChar e = None" and "length vs = 2 \<or> length vs = 3"
  shows "decode_from d vs [] = Some (quantum_bytes vs)
         \<or> (decode_from d vs [] = None \<and> \<not> reads_all d e)"
  using assms by (auto simp add: reads_all_def)

lemma decode_tail_pad2:
  assumes "reads d e" and "padChar e = Some p" and "length vs = 2"
  shows "decode_from d vs [p, p] = Some (quantum_bytes vs)
         \<or> (decode_from d vs [p, p] = None \<and> \<not> reads_all d e)"
  using assms
  by (auto simp add: reads_def reads_all_def skip_newlines_def)

lemma decode_tail_pad1:
  assumes "reads d e" and "padChar e = Some p" and "length vs = 3"
  shows "decode_from d vs [p] = Some (quantum_bytes vs)
         \<or> (decode_from d vs [p] = None \<and> \<not> reads_all d e)"
  using assms
  by (auto simp add: reads_def reads_all_def skip_newlines_def)

lemma decode_encode:
  assumes "reads d e"
  shows "decode_from d [] (EncodeToString e p) = Some p
         \<or> (decode_from d [] (EncodeToString e p) = None \<and> \<not> reads_all d e)"
  using assms
proof (induction e p rule: EncodeToString.induct)
  case (1 e)
  then show ?case by simp
next
  case (2 e a)
  define val where "val = ord a * 65536"
  let ?v0 = "val div 262144 mod 64" and ?v1 = "val div 4096 mod 64"
  let ?pad = "case padChar e of None \<Rightarrow> [] | Some p \<Rightarrow> [p, p]"
  note k = reads_sextet[OF "2.prems"]
  have val: "val < 16777216" "val mod 64 = 0" "val div 64 mod 64 = 0"
    using ord_less_256[of a] by (simp_all add: val_def)
  have b: "val div 65536 mod 256 = ord a"
    using bytes_of_val(1)[OF ord_less_256[of a], of 0 0] by (simp add: val_def)
  have q: "quantum_bytes [?v0, ?v1] = [a]"
    using quantum_bytes_val2[OF val] b by (simp add: char_of_ord)
  have enc: "EncodeToString e [a] = alphabet e ! ?v0 # alphabet e ! ?v1 # ?pad"
    by (simp add: val_def Let_def)
  have t: "decode_from d [?v0, ?v1] ?pad = Some [a]
           \<or> (decode_from d [?v0, ?v1] ?pad = None \<and> \<not> reads_all d e)"
  proof (cases "padChar e")
    case None
    with decode_tail_none[OF "2.prems" None, of "[?v0, ?v1]"] q show ?thesis by simp
  next
    case (Some p)
    with decode_tail_pad2[OF "2.prems" Some, of "[?v0, ?v1]"] q show ?thesis by simp
  qed
  have s1: "decode_from d [?v0] (alphabet e ! ?v1 # ?pad) = Some [a]
           \<or> (decode_from d [?v0] (alphabet e ! ?v1 # ?pad) = None \<and> \<not> reads_all d e)"
    using accept_or_reject_step[OF k[of "val div 4096"], of "[?v0]" "?pad" "[a]"] t by simp
  have s0: "decode_from d [] (alphabet e ! ?v0 # alphabet e ! ?v1 # ?pad) = Some [a]
           \<or> (decode_from d [] (alphabet e ! ?v0 # alphabet e ! ?v1 # ?pad) = None
               \<and> \<not> reads_all d e)"
    using accept_or_reject_step[OF k[of "val div 262144"], of "[]" "alphabet e ! ?v1 # ?pad" "[a]"] s1
    by simp
  show ?case unfolding enc by (rule s0)
next
  case (3 e a b)
  define val where "val = ord a * 65536 + ord b * 256"
  let ?v0 = "val div 262144 mod 64" and ?v1 = "val div 4096 mod 64" and ?v2 = "val div 64 mod 64"
  let ?pad = "case padChar e of None \<Rightarrow> [] | Some p \<Rightarrow> [p]"
  note k = reads_sextet[OF "3.prems"]
  have val: "val < 16777216" "val mod 64 = 0"
    using ord_less_256[of a] ord_less_256[of b] by (simp_all add: val_def)
  have b: "val div 65536 mod 256 = ord a" "val div 256 mod 256 = ord b"
    using bytes_of_val(1,2)[OF ord_less_256[of a] ord_less_256[of b], of 0] by (simp_all add: val_def)
  have q: "quantum_bytes [?v0, ?v1, ?v2] = [a, b]"
    using quantum_bytes_val3[OF val] b by (simp add: char_of_ord)
  have enc: "EncodeToString e [a, b] = alphabet e ! ?v0 # alphabet e ! ?v1 # alphabet e ! ?v2 # ?pad"
    by (simp add: val_def Let_def)
  have t: "decode_from d [?v0, ?v1, ?v2] ?pad = Some [a, b]
           \<or> (decode_from d [?v0, ?v1, ?v2] ?pad = None \<and> \<not> reads_all d e)"
  proof (cases "padChar e")
    case None
    with decode_tail_none[OF "3.prems" None, of "[?v0, ?v1, ?v2]"] q show ?thesis by simp
  next
    case (Some p)
    with decode_tail_pad1[OF "3.prems" Some, of "[?v0, ?v1, ?v2]"] q show ?thesis by simp
  qed
  have s2: "decode_from d [?v0, ?v1] (alphabet e ! ?v2 # ?pad) = Some [a, b]
           \<or> (decode_from d [?v0, ?v1] (alphabet e ! ?v2 # ?pad) = None \<and> \<not> reads_all d e)"
    using accept_or_reject_step[OF k[of "val div 64"], of "[?v0, ?v1]" "?pad" "[a, b]"] t by simp
  have s1: "decode_from d [?v0] (alphabet e ! ?v1 # alphabet e ! ?v2 # ?pad) = Some [a, b]
           \<or> (decode_from d [?v0] (alphabet e ! ?v1 # alphabet e ! ?v2 # ?pad) = None
               \<and> \<not> reads_all d e)"
    using accept_or_reject_step[OF k[of "val div 4096"], of "[?v0]" "alphabet e ! ?v2 # ?pad" "[a, b]"] s2
    by simp
  have s0: "decode_from d [] (alphabet e ! ?v0 # alphabet e ! ?v1 # alphabet e ! ?v2 # ?pad) = Some [a, b]
           \<or> (decode_from d [] (alphabet e ! ?v0 # alphabet e ! ?v1 # alphabet e ! ?v2 # ?pad) = None
               \<and> \<not> reads_all d e)"
    using accept_or_reject_step[OF k[of "val div 262144"], of "[]"
        "alphabet e ! ?v1 # alphabet e ! ?v2 # ?pad" "[a, b]"] s1
    by simp
  show ?case unfolding enc by (rule s0)
next
  case (4 e a b c rest)
  define val where "val = ord a * 65536 + ord b * 256 + ord c"
  let ?v0 = "val div 262144 mod 64" and ?v1 = "val div 4096 mod 64" and ?v2 = "val div 64 mod 64"
    and ?v3 = "val mod 64"
  let ?tl = "EncodeToString e rest"
  note k = reads_sextet[OF "4.prems"]
  have val: "val < 16777216"
    using val_less[OF ord_less_256[of a] ord_less_256[of b] ord_less_256[of c]] by (simp add: val_def)
  have b: "val div 65536 mod 256 = ord a" "val div 256 mod 256 = ord b" "val mod 256 = ord c"
    using bytes_of_val[OF ord_less_256[of a] ord_less_256[of b] ord_less_256[of c]]
    by (simp_all add: val_def)
  have q: "quantum_bytes [?v0, ?v1, ?v2, ?v3] = [a, b, c]"
    using quantum_bytes_val4[OF val] b by (simp add: char_of_ord)
  have enc: "EncodeToString e (a # b # c # rest) =
      alphabet e ! ?v0 # alphabet e ! ?v1 # alphabet e ! ?v2 # alphabet e ! ?v3 # ?tl"
    by (simp add: val_def Let_def)
  have t: "decode_from d [] ?tl = Some rest \<or> (decode_from d [] ?tl = None \<and> \<not> reads_all d e)"
    using "4.IH"[OF refl "4.prems"] .
  have s3: "decode_from d [?v0, ?v1, ?v2] (alphabet e ! ?v3 # ?tl) = Some (a # b # c # rest)
           \<or> (decode_from d [?v0, ?v1, ?v2] (alphabet e ! ?v3 # ?tl) = None \<and> \<not> reads_all d e)"
    using accept_or_reject_last[OF k[of val] _ t, of "[?v0, ?v1, ?v2]"] q by simp
  have s2: "decode_from d [?v0, ?v1] (alphabet e ! ?v2 # alphabet e ! ?v3 # ?tl) = Some (a # b # c # rest)
           \<or> (decode_from d [?v0, ?v1] (alphabet e ! ?v2 # alphabet e ! ?v3 # ?tl) = None
               \<and> \<not> reads_all d e)"
    using accept_or_reject_step[OF k[of "val div 64"], of "[?v0, ?v1]" "alphabet e ! ?v3 # ?tl"
        "a # b # c # rest"] s3
    by simp
  have s1: "decode_from d [?v0] (alphabet e ! ?v1 # alphabet e ! ?v2 # alphabet e ! ?v3 # ?tl)
             = Some (a # b # c # rest)
           \<or> (decode_from d [?v0] (alphabet e ! ?v1 # alphabet e ! ?v2 # alphabet e ! ?v3 # ?tl) = None
               \<and> \<not> reads_all d e)"
    using accept_or_reject_step[OF k[of "val div 4096"], of "[?v0]"
        "alphabet e ! ?v2 # alphabet e ! ?v3 # ?tl" "a # b # c # rest"] s2
    by simp
  have s0: "decode_from d [] (alphabet e ! ?v0 # alphabet e ! ?v1 # alphabet e ! ?v2 # alphabet e ! ?v3 # ?tl)
             = Some (a # b # c # rest)
           \<or> (decode_from d [] (alphabet e ! ?v0 # alphabet e ! ?v1 # alphabet e ! ?v2
                                  # alphabet e ! ?v3 # ?tl) = None
               \<and> \<not> reads_all d e)"
    using accept_or_reject_step[OF k[of "val div 262144"], of "[]"
        "alphabet e ! ?v1 # alphabet e ! ?v2 # alphabet e ! ?v3 # ?tl" "a # b # c # rest"] s1
    by simp
  show ?case unfolding enc by (rule s0)
qed

lemma QueryUnescape_plain:
  "CHR ''%'' \<notin> set s \<Longrightarrow> CHR ''+'' \<notin> set s \<Longrightarrow> QueryUnescape s = (s, None)"
proof -
  assume a: "CHR ''%'' \<notin> set s" "CHR ''+'' \<notin> set s"
  then have "escapes_ok s \<and> unescape_bytes s = s"
    by (induction s) auto
  then show ?thesis by (simp add: QueryUnescape_def)
qed

lemma set_EncodeToString:
  assumes "length (alphabet e) = 64"
  shows "set (EncodeToString e p) \<subseteq> set (alphabet e) \<union> set_option (padChar e)"
  using assms
proof (induction e p rule: EncodeToString.induct)
  case (4 e a b c rest)
  then show ?case by (simp add: Let_def)
qed (auto simp add: Let_def split: option.splits)

lemma length_EncodeToString_padded:
  "padChar e \<noteq> None \<Longrightarrow> length (EncodeToString e p) mod 4 = 0"
  by (induction e p rule: EncodeToString.induct) (auto simp add: Let_def)

lemma reads_all_same:
  "distinct (alphabet e) \<Longrightarrow> length (alphabet e) = 64 \<Longrightarrow> alphabet d = alphabet e \<Longrightarrow>
   padChar d = padChar e \<Longrightarrow> reads_all d e"
  by (simp add: reads_all_def index_of_nth)

lemma DecodeString_same:
  "DecodeString RawURLEncoding (EncodeToString RawURLEncoding p) = Some p"
  "DecodeString URLEncoding (EncodeToString URLEncoding p) = Some p"
  "DecodeString StdEncoding (EncodeToString StdEncoding p) = Some p"
proof -
  have "reads_all RawURLEncoding RawURLEncoding" "reads_all URLEncoding URLEncoding"
    "reads_all StdEncoding StdEncoding"
    by (rule reads_all_same;
        simp add: RawURLEncoding_def URLEncoding_def StdEncoding_def distinct_alphabets
          length_alphabets)+
  then show "DecodeString RawURLEncoding (EncodeToString RawURLEncoding p) = Some p"
    "DecodeString URLEncoding (EncodeToString URLEncoding p) = Some p"
    "DecodeString StdEncoding (EncodeToString StdEncoding p) = Some p"
    using decode_encode[OF reads_Raw_Raw, of p] decode_encode[OF reads_URL_URL, of p]
      decode_encode[OF reads_Std_Std, of p]
    by (simp_all add: DecodeString_def)
qed

lemma DecodeString_other:
  "DecodeString RawURLEncoding (EncodeToString URLEncoding p) \<in> {None, Some p}"
  "DecodeString StdEncoding (EncodeToString URLEncoding p) \<in> {None, Some p}"
  "DecodeString RawURLEncoding (EncodeToString StdEncoding p) \<in> {None, Some p}"
  using decode_encode[OF reads_Raw_URL, of p] decode_encode[OF reads_Std_URL, of p]
    decode_encode[OF reads_Raw_Std, of p]
  by (auto simp add: DecodeString_def)

text \<open>
  The unpadded URL-safe encoding of every plaintext is decoded to the plaintext.
\<close>

lemma base64DecodeUserinfo_RawURL:
  "base64DecodeUserinfo (EncodeToString RawURLEncoding p) = Inr p"
proof -
  let ?s = "EncodeToString RawURLEncoding p"
  have "set ?s \<subseteq> set encodeURL"
    using set_EncodeToString[of RawURLEncoding p]
    by (simp add: RawURLEncoding_def length_alphabets)
  then have "CHR ''%'' \<notin> set ?s" "CHR ''+'' \<notin> set ?s"
    using alphabets_notin by blast+
  then have "QueryUnescape ?s = (?s, None)" by (rule QueryUnescape_plain)
  then show ?thesis
    by (simp add: base64DecodeUserinfo_def Let_def DecodeString_same)
qed

text \<open>The padded URL-safe encoding of every plaintext is decoded to the plaintext.\<close>

lemma base64DecodeUserinfo_URL:
  "base64DecodeUserinfo (EncodeToString URLEncoding p) = Inr p"
proof -
  let ?s = "EncodeToString URLEncoding p"
  have "set ?s \<subseteq> set encodeURL \<union> {CHR ''=''}"
    using set_EncodeToString[of URLEncoding p]
    by (simp add: URLEncoding_def length_alphabets)
  then have "CHR ''%'' \<notin> set ?s" "CHR ''+'' \<notin> set ?s"
    using alphabets_notin by auto
  then have q: "QueryUnescape ?s = (?s, None)" by (rule QueryUnescape_plain)
  have l: "length ?s mod 4 = 0"
    by (rule length_EncodeToString_padded) (simp add: URLEncoding_def)
  show ?thesis
    using DecodeString_other(1,2)[of p] DecodeString_same(2)[of p]
    by (auto simp add: base64DecodeUserinfo_def Let_def q l)
qed

text \<open>
  The padded standard encoding of a plaintext is decoded to the plaintext when it has no
  \<^verbatim>\<open>+\<close> in it.
\<close>

lemma base64DecodeUserinfo_Std:
  assumes "CHR ''+'' \<notin> set (EncodeToString StdEncoding p)"
  shows "base64DecodeUserinfo (EncodeToString StdEncoding p) = Inr p"
proof -
  let ?s = "EncodeToString StdEncoding p"
  have "set ?s \<subseteq> set encodeStd \<union> {CHR ''=''}"
    using set_EncodeToString[of StdEncoding p]
    by (simp add: StdEncoding_def length_alphabets)
  then have "CHR ''%'' \<notin> set ?s"
    using alphabets_notin by auto
  then have q: "QueryUnescape ?s = (?s, None)" using assms by (rule QueryUnescape_plain)
  have l: "length ?s mod 4 = 0"
    by (rule length_EncodeToString_padded) (simp add: StdEncoding_def)
  show ?thesis
    using DecodeString_other(3)[of p] DecodeString_same(3)[of p]
    by (auto simp add: base64DecodeUserinfo_def Let_def q l)
qed

lemma skip_newlines_keeps:
  "c \<in> set s \<Longrightarrow> \<not> is_newline c \<Longrightarrow> c \<in> set (skip_newlines s)"
  unfolding skip_newlines_def by (induction s) auto

lemma decode_from_rejected_char:
  "rejects d c \<Longrightarrow> c \<in> set s \<Longrightarrow> decode_from d vs s = None"
proof (induction d vs s rule: decode_from.induct)
  case (1 e vs)
  then show ?case by simp
next
  case (2 e vs x cs)
  show ?case
  proof (cases "x = c")
    case True
    with "2.prems"(1) show ?thesis using decode_from_rejects[of e c vs cs] by simp
  next
    case False
    with "2.prems"(2) have c: "c \<in> set cs" by simp
    have nn: "\<not> is_newline c" and np: "padChar e \<noteq> Some c"
      using "2.prems"(1) by (simp_all add: rejects_def)
    show ?thesis
    proof (cases "index_of x (alphabet e)")
      case (Some v)
      then show ?thesis
        using "2.IH" "2.prems"(1) c by (cases "length vs = 3") simp_all
    next
      case None
      show ?thesis
      proof (cases "is_newline x")
        case True
        with None "2.IH" "2.prems"(1) c show ?thesis by simp
      next
        case nl: False
        have k: "c \<in> set (skip_newlines cs)" using c nn by (rule skip_newlines_keeps)
        have "\<And>y ys. skip_newlines cs = y # ys \<Longrightarrow> padChar e = Some y \<Longrightarrow> skip_newlines ys \<noteq> []"
        proof -
          fix y ys assume e: "skip_newlines cs = y # ys" "padChar e = Some y"
          with k np have "c \<in> set ys" by auto
          then have "c \<in> set (skip_newlines ys)" using nn by (rule skip_newlines_keeps)
          then show "skip_newlines ys \<noteq> []" by auto
        qed
        moreover from k have "skip_newlines cs \<noteq> []" by auto
        ultimately show ?thesis
          using None nl by (auto split: list.splits)
      qed
    qed
  qed
qed

lemma unescape_bytes_plus:
  "CHR ''%'' \<notin> set s \<Longrightarrow>
   QueryUnescape s = (map (\<lambda>c. if c = CHR ''+'' then CHR '' '' else c) s, None)"
proof -
  assume a: "CHR ''%'' \<notin> set s"
  then have "escapes_ok s \<and> unescape_bytes s = map (\<lambda>c. if c = CHR ''+'' then CHR '' '' else c) s"
    by (induction s) auto
  then show ?thesis by (simp add: QueryUnescape_def)
qed

lemma rejects_space:
  "rejects RawURLEncoding (CHR '' '')" "rejects StdEncoding (CHR '' '')"
  "rejects URLEncoding (CHR '' '')"
  by (simp_all add: rejects_def RawURLEncoding_def StdEncoding_def URLEncoding_def
        index_of_notin encodeStd_def encodeURL_def is_newline_def)

text \<open>
  The padded standard encoding of a plaintext is not decoded when it has a \<^verbatim>\<open>+\<close> in it:
  the percent-decoding makes the \<^verbatim>\<open>+\<close> a space, and each decoder rejects a space.
\<close>

lemma Std_encoding_with_plus_rejected:
  assumes "CHR ''+'' \<in> set (EncodeToString StdEncoding p)"
  shows "base64DecodeUserinfo (EncodeToString StdEncoding p) = Inl Base64DecodeFailed"
proof -
  let ?s = "EncodeToString StdEncoding p"
  let ?t = "map (\<lambda>c. if c = CHR ''+'' then CHR '' '' else c) ?s"
  have "set ?s \<subseteq> set encodeStd \<union> {CHR ''=''}"
    using set_EncodeToString[of StdEncoding p]
    by (simp add: StdEncoding_def length_alphabets)
  then have "CHR ''%'' \<notin> set ?s"
    using alphabets_notin by auto
  then have q: "QueryUnescape ?s = (?t, None)" by (rule unescape_bytes_plus)
  have sp: "CHR '' '' \<in> set ?t" using assms by force
  then have sp': "\<And>x. CHR '' '' \<in> set (?t @ x)" by simp
  have "DecodeString RawURLEncoding ?t = None"
    unfolding DecodeString_def using rejects_space(1) sp by (rule decode_from_rejected_char)
  moreover have "\<And>x. DecodeString StdEncoding (?t @ x) = None"
    unfolding DecodeString_def using rejects_space(2) sp' by (rule decode_from_rejected_char)
  moreover have "\<And>x. DecodeString URLEncoding (?t @ x) = None"
    unfolding DecodeString_def using rejects_space(3) sp' by (rule decode_from_rejected_char)
  moreover have "DecodeString StdEncoding ?t = None" "DecodeString URLEncoding ?t = None"
    unfolding DecodeString_def using rejects_space sp by (auto intro: decode_from_rejected_char)
  ultimately show ?thesis
    by (simp add: base64DecodeUserinfo_def Let_def q del: map_append)
qed

section \<open>The claims about the parser\<close>

text \<open>
  C3, as the code has it. Take an \<^verbatim>\<open>ss://\<close> line that parses as a URI and whose userinfo
  decodes. The port is converted first: when that fails, parsing fails with \<open>InvalidPort\<close>,
  whatever the userinfo. Otherwise parsing fails with \<open>InvalidUserinfo\<close> exactly when the
  decoded text has no colon (a single field). When it has one colon or more, parsing
  succeeds: the method is the text before the first colon and the password is everything
  after it, further colons included. With exactly two fields these are the two fields.
\<close>

theorem parseSS_userinfo_fields:
  assumes "Parse raw = Inr u"
    and "base64DecodeUserinfo (url_UserString u) = Inr decoded"
  shows "case Atoi (if url_Port u = [] then ''8388'' else url_Port u) of
           (n, Some err) \<Rightarrow> parseSS Parse raw = Inl (InvalidPort err)
         | (port, None) \<Rightarrow>
             (if CHR '':'' \<in> set decoded
              then \<exists>c. parseSS Parse raw = Inr c
                     \<and> ss_Port c = port
                     \<and> ss_Method c = takeWhile (\<lambda>x. x \<noteq> CHR '':'') decoded
                     \<and> ss_Password c = tl (dropWhile (\<lambda>x. x \<noteq> CHR '':'') decoded)
                     \<and> ss_Method c @ '':'' @ ss_Password c = decoded
                     \<and> CHR '':'' \<notin> set (ss_Method c)
              else parseSS Parse raw = Inl (InvalidUserinfo decoded))"
  using assms takeWhile_tl_dropWhile[of "CHR '':''" decoded] notin_takeWhile[of "CHR '':''" decoded]
  by (auto simp add: parseSS_def SplitN2_def Let_def split: prod.splits option.splits)

theorem parseSS_userinfo_fields_witness:
  "(\<exists>c. parseSS Parse_examples ''ss://YWVzLTI1Ni1nY206cGFzczp3b3Jk@1.2.3.4:8388#node'' = Inr c
       \<and> ss_Method c = ''aes-256-gcm'' \<and> ss_Password c = ''pass:word'')
   \<and> parseSS Parse_examples ''ss://bm9jb2xvbg==@1.2.3.4'' = Inl (InvalidUserinfo ''nocolon'')
   \<and> parseSS Parse_examples ''ss://bm9jb2xvbg==@1.2.3.4:99999999999999999999''
       = Inl (InvalidPort ErrRange)"
proof -
  have u: "Parse_examples ''ss://YWVzLTI1Ni1nY206cGFzczp3b3Jk@1.2.3.4:8388#node'' = Inr url_ss_three"
    "Parse_examples ''ss://bm9jb2xvbg==@1.2.3.4'' = Inr url_ss_one"
    "Parse_examples ''ss://bm9jb2xvbg==@1.2.3.4:99999999999999999999'' = Inr url_ss_badport"
    by (simp_all add: Parse_examples_def)
  have d: "base64DecodeUserinfo (url_UserString url_ss_three) = Inr ''aes-256-gcm:pass:word''"
    "base64DecodeUserinfo (url_UserString url_ss_one) = Inr ''nocolon''"
    "base64DecodeUserinfo (url_UserString url_ss_badport) = Inr ''nocolon''"
    using decode_three decode_one
    by (simp_all add: url_ss_three_def url_ss_one_def url_ss_badport_def)
  have a: "Atoi (if url_Port url_ss_three = [] then ''8388'' else url_Port url_ss_three) = (8388, None)"
    "Atoi (if url_Port url_ss_one = [] then ''8388'' else url_Port url_ss_one) = (8388, None)"
    "Atoi (if url_Port url_ss_badport = [] then ''8388'' else url_Port url_ss_badport)
       = (9223372036854775807, Some ErrRange)"
    by (simp_all add: url_ss_three_def url_ss_one_def url_ss_badport_def Atoi_def ParseUint_def
          is_digit_def ord_def)
  have "\<exists>c. parseSS Parse_examples ''ss://YWVzLTI1Ni1nY206cGFzczp3b3Jk@1.2.3.4:8388#node'' = Inr c
       \<and> ss_Method c = ''aes-256-gcm'' \<and> ss_Password c = ''pass:word''"
    using parseSS_userinfo_fields[where Parse = Parse_examples and u = url_ss_three
        and raw = "''ss://YWVzLTI1Ni1nY206cGFzczp3b3Jk@1.2.3.4:8388#node''"
        and decoded = "''aes-256-gcm:pass:word''"] u(1) d(1)
    by (auto simp add: a(1))
  moreover have "parseSS Parse_examples ''ss://bm9jb2xvbg==@1.2.3.4'' = Inl (InvalidUserinfo ''nocolon'')"
    using parseSS_userinfo_fields[where Parse = Parse_examples and u = url_ss_one
        and raw = "''ss://bm9jb2xvbg==@1.2.3.4''" and decoded = "''nocolon''"] u(2) d(2)
    by (simp add: a(2))
  moreover have "parseSS Parse_examples ''ss://bm9jb2xvbg==@1.2.3.4:99999999999999999999''
       = Inl (InvalidPort ErrRange)"
    using parseSS_userinfo_fields[where Parse = Parse_examples and u = url_ss_badport
        and raw = "''ss://bm9jb2xvbg==@1.2.3.4:99999999999999999999''" and decoded = "''nocolon''"]
      u(3) d(3)
    by (simp add: a(3))
  ultimately show ?thesis by blast
qed

text \<open>
  The claim C3 as the specification states it fails for more than two fields: the
  userinfo \<^verbatim>\<open>aes-256-gcm:pass:word\<close> has three, and the line parses, with the password
  \<^verbatim>\<open>pass:word\<close>. It also fails for a single field when the port does not fit an
  \<^verbatim>\<open>int\<close>: the error is then the one of the port.
\<close>

theorem parseSS_three_fields_counterexample:
  "count_list ''aes-256-gcm:pass:word'' (CHR '':'') = 2
   \<and> base64DecodeUserinfo (url_UserString url_ss_three) = Inr ''aes-256-gcm:pass:word''
   \<and> parseSS Parse_examples ''ss://YWVzLTI1Ni1nY206cGFzczp3b3Jk@1.2.3.4:8388#node''
       = Inr \<lparr>ss_Name = ''node'', ss_Method = ''aes-256-gcm'', ss_Password = ''pass:word'',
               ss_Server = ''1.2.3.4'', ss_Port = 8388\<rparr>
   \<and> ParseLine (\<lambda>l. l) Parse_examples id Unmarshal_examples
         ''ss://YWVzLTI1Ni1nY206cGFzczp3b3Jk@1.2.3.4:8388#node''
       = Inr (ShadowSocks \<lparr>ss_Name = ''node'', ss_Method = ''aes-256-gcm'',
                ss_Password = ''pass:word'', ss_Server = ''1.2.3.4'', ss_Port = 8388\<rparr>)
   \<and> base64DecodeUserinfo (url_UserString url_ss_badport) = Inr ''nocolon''
   \<and> parseSS Parse_examples ''ss://bm9jb2xvbg==@1.2.3.4:99999999999999999999''
       = Inl (InvalidPort ErrRange)"
proof -
  have b: "parseSS Parse_examples ''ss://bm9jb2xvbg==@1.2.3.4:99999999999999999999''
       = Inl (InvalidPort ErrRange)"
    by (simp add: parseSS_def Parse_examples_def url_ss_badport_def Atoi_def ParseUint_def
          is_digit_def ord_def)
  have bd: "base64DecodeUserinfo (url_UserString url_ss_badport) = Inr ''nocolon''"
    using decode_one by (simp add: url_ss_badport_def)
  have p: "parseSS Parse_examples ''ss://YWVzLTI1Ni1nY206cGFzczp3b3Jk@1.2.3.4:8388#node''
       = Inr \<lparr>ss_Name = ''node'', ss_Method = ''aes-256-gcm'', ss_Password = ''pass:word'',
               ss_Server = ''1.2.3.4'', ss_Port = 8388\<rparr>"
    using decode_three
    by (simp add: parseSS_def Parse_examples_def url_ss_three_def parse_simps)
  have "HasPrefix ''ss://YWVzLTI1Ni1nY206cGFzczp3b3Jk@1.2.3.4:8388#node'' ''ss://''"
    by (simp add: HasPrefix_def)
  then have "ParseLine (\<lambda>l. l) Parse_examples id Unmarshal_examples
         ''ss://YWVzLTI1Ni1nY206cGFzczp3b3Jk@1.2.3.4:8388#node''
       = map_sum id ShadowSocks
           (parseSS Parse_examples ''ss://YWVzLTI1Ni1nY206cGFzczp3b3Jk@1.2.3.4:8388#node'')"
    by (rule ParseLine_dispatch(2))
  with p decode_three b bd show ?thesis
    by (simp add: url_ss_three_def)
qed

text \<open>
  C4, as the code has it. In a \<^verbatim>\<open>vmess\<close> payload the port coerces without failure from a
  number, the empty string, \<^verbatim>\<open>null\<close> (both give 0) and a string that \<^verbatim>\<open>Atoi\<close> accepts, in
  particular every string of one to eighteen decimal digits; a string that \<^verbatim>\<open>Atoi\<close> rejects
  and every other JSON type make parsing fail with \<open>PortCoercionFailed\<close>. The alterId is
  coerced the same way, but its error is dropped: it never makes parsing fail. A
  boolean, an array or an object gives the alterId 0, and a string that \<^verbatim>\<open>Atoi\<close> rejects
  gives the value that \<^verbatim>\<open>Atoi\<close> returns with its error (0, or the bound of \<^verbatim>\<open>int64\<close> on a
  range error).
\<close>

theorem parseVmess_coercion:
  assumes "base64DecodeUserinfo (vmess_payload raw) = Inr data"
    and "Unmarshal data = Inr v"
  shows "(case vj_Port v of
            JNumber x \<Rightarrow> \<exists>c. parseVmess f2i Unmarshal raw = Inr c \<and> vmess_Port c = f2i x
          | JString s \<Rightarrow>
              (if s = [] then \<exists>c. parseVmess f2i Unmarshal raw = Inr c \<and> vmess_Port c = 0
               else (case Atoi s of
                       (n, None) \<Rightarrow> \<exists>c. parseVmess f2i Unmarshal raw = Inr c \<and> vmess_Port c = n
                     | (n, Some e) \<Rightarrow>
                         parseVmess f2i Unmarshal raw = Inl (PortCoercionFailed (AtoiFailed e))))
          | JNull \<Rightarrow> \<exists>c. parseVmess f2i Unmarshal raw = Inr c \<and> vmess_Port c = 0
          | _ \<Rightarrow> parseVmess f2i Unmarshal raw = Inl (PortCoercionFailed UnexpectedType))
       \<and> (\<forall>s. vj_Port v = JString s \<and> numeric s \<longrightarrow>
              (\<exists>c. parseVmess f2i Unmarshal raw = Inr c \<and> vmess_Port c = int (digits_value 0 s)))
       \<and> (\<forall>c. parseVmess f2i Unmarshal raw = Inr c \<longrightarrow>
              vmess_Aid c = (case vj_Aid v of
                               JNumber x \<Rightarrow> f2i x
                             | JString s \<Rightarrow> (if s = [] then 0 else fst (Atoi s))
                             | _ \<Rightarrow> 0))"
proof (intro conjI allI impI)
  show "case vj_Port v of
            JNumber x \<Rightarrow> \<exists>c. parseVmess f2i Unmarshal raw = Inr c \<and> vmess_Port c = f2i x
          | JString s \<Rightarrow>
              (if s = [] then \<exists>c. parseVmess f2i Unmarshal raw = Inr c \<and> vmess_Port c = 0
               else (case Atoi s of
                       (n, None) \<Rightarrow> \<exists>c. parseVmess f2i Unmarshal raw = Inr c \<and> vmess_Port c = n
                     | (n, Some e) \<Rightarrow>
                         parseVmess f2i Unmarshal raw = Inl (PortCoercionFailed (AtoiFailed e))))
          | JNull \<Rightarrow> \<exists>c. parseVmess f2i Unmarshal raw = Inr c \<and> vmess_Port c = 0
          | _ \<Rightarrow> parseVmess f2i Unmarshal raw = Inl (PortCoercionFailed UnexpectedType)"
    using assms
    by (cases "vj_Port v") (auto simp add: parseVmess_def Let_def split: prod.splits option.splits)
next
  fix s assume "vj_Port v = JString s \<and> numeric s"
  then show "\<exists>c. parseVmess f2i Unmarshal raw = Inr c \<and> vmess_Port c = int (digits_value 0 s)"
    using assms Atoi_numeric[of s]
    by (auto simp add: parseVmess_def Let_def numeric_def)
next
  fix c assume "parseVmess f2i Unmarshal raw = Inr c"
  then show "vmess_Aid c = (case vj_Aid v of
                               JNumber x \<Rightarrow> f2i x
                             | JString s \<Rightarrow> (if s = [] then 0 else fst (Atoi s))
                             | _ \<Rightarrow> 0)"
    using assms
    by (cases "vj_Aid v")
       (auto simp add: parseVmess_def Let_def split: prod.splits option.splits)
qed

theorem parseVmess_coercion_witness:
  "parseVmess id Unmarshal_examples ''vmess://eyJhZGQiOiJleGFtcGxlLmNvbSIsInBvcnQiOls0NDNdfQ==''
     = Inl (PortCoercionFailed UnexpectedType)
   \<and> (\<exists>c. parseVmess id Unmarshal_examples
             ''vmess://eyJhZGQiOiJleGFtcGxlLmNvbSIsImFpZCI6dHJ1ZSwicG9ydCI6IjQ0MyJ9#name'' = Inr c
          \<and> vmess_Port c = 443 \<and> vmess_Aid c = 0)"
  using parseVmess_coercion[OF decode_json_port_list, of Unmarshal_examples _ id]
    parseVmess_coercion[OF decode_json_aid_bool, of Unmarshal_examples _ id]
    json_texts_differ
  by (auto simp add: Unmarshal_examples_def vj_empty_def numeric_def is_digit_def ord_def
        digits_value.simps)

text \<open>
  The claim C4 as the specification states it fails for the alterId: the payload
  \<^verbatim>\<open>{"add":"example.com","aid":true,"port":"443"}\<close> has a boolean alterId, and the line parses,
  with the alterId 0.
\<close>

theorem parseVmess_aid_counterexample:
  "map_sum id vj_Aid (Unmarshal_examples json_aid_bool) = Inr (JBool True)
   \<and> parseVmess id Unmarshal_examples
        ''vmess://eyJhZGQiOiJleGFtcGxlLmNvbSIsImFpZCI6dHJ1ZSwicG9ydCI6IjQ0MyJ9#name''
      = Inr \<lparr>vmess_Name = ''example.com:443'', vmess_UUID = [], vmess_Server = ''example.com'',
              vmess_Port = 443, vmess_Aid = 0, vmess_Security = ''auto'', vmess_Network = [],
              vmess_TLS = [], vmess_SNI = [], vmess_Host = [], vmess_Path = []\<rparr>
   \<and> ParseLine (\<lambda>l. l) Parse_examples id Unmarshal_examples
        ''vmess://eyJhZGQiOiJleGFtcGxlLmNvbSIsImFpZCI6dHJ1ZSwicG9ydCI6IjQ0MyJ9#name''
      = Inr (Vmess \<lparr>vmess_Name = ''example.com:443'', vmess_UUID = [],
              vmess_Server = ''example.com'', vmess_Port = 443, vmess_Aid = 0,
              vmess_Security = ''auto'', vmess_Network = [], vmess_TLS = [], vmess_SNI = [],
              vmess_Host = [], vmess_Path = []\<rparr>)"
proof -
  have p: "parseVmess id Unmarshal_examples
        ''vmess://eyJhZGQiOiJleGFtcGxlLmNvbSIsImFpZCI6dHJ1ZSwicG9ydCI6IjQ0MyJ9#name''
      = Inr \<lparr>vmess_Name = ''example.com:443'', vmess_UUID = [], vmess_Server = ''example.com'',
              vmess_Port = 443, vmess_Aid = 0, vmess_Security = ''auto'', vmess_Network = [],
              vmess_TLS = [], vmess_SNI = [], vmess_Host = [], vmess_Path = []\<rparr>"
    using decode_json_aid_bool
    by (simp add: parseVmess_def Unmarshal_examples_def vj_empty_def parse_simps)
  have "HasPrefix ''vmess://eyJhZGQiOiJleGFtcGxlLmNvbSIsImFpZCI6dHJ1ZSwicG9ydCI6IjQ0MyJ9#name''
          ''vmess://''"
    by (simp add: HasPrefix_def)
  then have "ParseLine (\<lambda>l. l) Parse_examples id Unmarshal_examples
        ''vmess://eyJhZGQiOiJleGFtcGxlLmNvbSIsImFpZCI6dHJ1ZSwicG9ydCI6IjQ0MyJ9#name''
      = map_sum id Vmess (parseVmess id Unmarshal_examples
          ''vmess://eyJhZGQiOiJleGFtcGxlLmNvbSIsImFpZCI6dHJ1ZSwicG9ydCI6IjQ0MyJ9#name'')"
    by (rule ParseLine_dispatch(3))
  with p show ?thesis
    by (simp add: Unmarshal_examples_def vj_empty_def)
qed

text \<open>
  C7. Defaults: a vless URI without the query parameter \<^verbatim>\<open>security\<close> has the Security
  \<^verbatim>\<open>""\<close> and a trojan URI without it the Security \<^verbatim>\<open>"tls"\<close>; a vless or trojan URI
  without a port parses with the Port 443, and an ss URI without one, when it parses, has
  the Port 8388; a vmess payload without a cipher has the Security \<^verbatim>\<open>"auto"\<close>.
\<close>

theorem parse_defaults:
  "(Parse raw = Inr u \<and> url_Query u ''security'' = None \<and> parseVless Parse raw = Inr vc
      \<longrightarrow> vless_Security vc = [])
   \<and> (Parse raw = Inr u \<and> url_Query u ''security'' = None \<and> parseTrojan Parse raw = Inr tc
      \<longrightarrow> trojan_Security tc = ''tls'')
   \<and> (Parse raw = Inr u \<and> url_Port u = []
      \<longrightarrow> (\<exists>c. parseVless Parse raw = Inr c \<and> vless_Port c = 443)
          \<and> (\<exists>c. parseTrojan Parse raw = Inr c \<and> trojan_Port c = 443))
   \<and> (Parse raw = Inr u \<and> url_Port u = [] \<and> parseSS Parse raw = Inr sc
      \<longrightarrow> ss_Port sc = 8388)
   \<and> (base64DecodeUserinfo (vmess_payload raw) = Inr data \<and> Unmarshal data = Inr v
        \<and> vj_Scy v = [] \<and> parseVmess f2i Unmarshal raw = Inr mc
      \<longrightarrow> vmess_Security mc = ''auto'')"
proof -
  have a443: "Atoi ''443'' = (443, None)" and a8388: "Atoi ''8388'' = (8388, None)"
    by (simp_all add: Atoi_def ParseUint_def is_digit_def ord_def)
  show ?thesis
  proof (intro conjI impI)
    assume "Parse raw = Inr u \<and> url_Query u ''security'' = None \<and> parseVless Parse raw = Inr vc"
    then show "vless_Security vc = []"
      by (auto simp add: parseVless_def Let_def Get_def split: prod.splits option.splits)
  next
    assume "Parse raw = Inr u \<and> url_Query u ''security'' = None \<and> parseTrojan Parse raw = Inr tc"
    then show "trojan_Security tc = ''tls''"
      by (auto simp add: parseTrojan_def Let_def Get_def split: prod.splits option.splits)
  next
    assume "Parse raw = Inr u \<and> url_Port u = []"
    then show "\<exists>c. parseVless Parse raw = Inr c \<and> vless_Port c = 443"
      using a443 by (simp add: parseVless_def Let_def)
  next
    assume "Parse raw = Inr u \<and> url_Port u = []"
    then show "\<exists>c. parseTrojan Parse raw = Inr c \<and> trojan_Port c = 443"
      using a443 by (simp add: parseTrojan_def Let_def)
  next
    assume "Parse raw = Inr u \<and> url_Port u = [] \<and> parseSS Parse raw = Inr sc"
    then show "ss_Port sc = 8388"
      using a8388
      by (auto simp add: parseSS_def Let_def split: sum.splits if_splits)
  next
    assume "base64DecodeUserinfo (vmess_payload raw) = Inr data \<and> Unmarshal data = Inr v
        \<and> vj_Scy v = [] \<and> parseVmess f2i Unmarshal raw = Inr mc"
    then show "vmess_Security mc = ''auto''"
      by (auto simp add: parseVmess_def Let_def split: prod.splits option.splits)
  qed
qed

theorem parse_defaults_witness:
  "(\<exists>c. parseVless Parse_examples ''vless://uuid@example.com?type=ws#My%20Node'' = Inr c
        \<and> vless_Security c = [] \<and> vless_Port c = 443 \<and> vless_Name c = ''My Node'')
   \<and> (\<exists>c. parseTrojan Parse_examples ''trojan://secret@example.com'' = Inr c
        \<and> trojan_Security c = ''tls'' \<and> trojan_Port c = 443)
   \<and> (\<exists>c. parseSS Parse_examples ''ss://YWVzLTI1Ni1nY206cGFzc3dvcmQ=@1.2.3.4'' = Inr c
        \<and> ss_Port c = 8388)
   \<and> (\<exists>c. parseVmess id Unmarshal_examples
             ''vmess://eyJhZGQiOiJleGFtcGxlLmNvbSIsImFpZCI6dHJ1ZSwicG9ydCI6IjQ0MyJ9#name'' = Inr c
        \<and> vmess_Security c = ''auto'')"
proof -
  let ?rv = "''vless://uuid@example.com?type=ws#My%20Node''"
  let ?rt = "''trojan://secret@example.com''"
  let ?rs = "''ss://YWVzLTI1Ni1nY206cGFzc3dvcmQ=@1.2.3.4''"
  let ?rm = "''vmess://eyJhZGQiOiJleGFtcGxlLmNvbSIsImFpZCI6dHJ1ZSwicG9ydCI6IjQ0MyJ9#name''"
  let ?vj = "vj_empty\<lparr>vj_Add := ''example.com'', vj_Aid := JBool True, vj_Port := JString ''443''\<rparr>"
  obtain vc where vc: "parseVless Parse_examples ?rv = Inr vc" "vless_Name vc = ''My Node''"
    by (simp add: parseVless_def Parse_examples_def url_vless_def parse_simps)
  obtain tc where tc: "parseTrojan Parse_examples ?rt = Inr tc"
    by (simp add: parseTrojan_def Parse_examples_def url_trojan_def parse_simps)
  obtain sc where sc: "parseSS Parse_examples ?rs = Inr sc"
    using decode_noport
    by (simp add: parseSS_def Parse_examples_def url_ss_noport_def parse_simps)
  obtain mc where mc: "parseVmess id Unmarshal_examples ?rm = Inr mc"
    using decode_json_aid_bool
    by (simp add: parseVmess_def Unmarshal_examples_def vj_empty_def parse_simps)
  have uv: "Parse_examples ?rv = Inr url_vless"
    and ut: "Parse_examples ?rt = Inr url_trojan"
    and us: "Parse_examples ?rs = Inr url_ss_noport"
    and um: "Unmarshal_examples json_aid_bool = Inr ?vj"
    by (simp_all add: Parse_examples_def Unmarshal_examples_def)
  have q: "url_Query url_vless ''security'' = None" "url_Query url_trojan ''security'' = None"
    "url_Port url_vless = []" "url_Port url_trojan = []" "url_Port url_ss_noport = []"
    "vj_Scy ?vj = []"
    by (simp_all add: url_vless_def url_trojan_def url_ss_noport_def vj_empty_def)
  note D = parse_defaults[where Parse = Parse_examples and Unmarshal = Unmarshal_examples
      and f2i = id and vc = vc and tc = tc and sc = sc and mc = mc and data = json_aid_bool
      and v = ?vj]
  have "vless_Security vc = [] \<and> vless_Port vc = 443"
    using D[where raw = ?rv and u = url_vless] uv q(1,3) vc(1) by auto
  moreover have "trojan_Security tc = ''tls'' \<and> trojan_Port tc = 443"
    using D[where raw = ?rt and u = url_trojan] ut q(2,4) tc by auto
  moreover have "ss_Port sc = 8388"
    using D[where raw = ?rs and u = url_ss_noport] us q(5) sc by auto
  moreover have "vmess_Security mc = ''auto''"
    using D[where raw = ?rm and u = url_vless] um q(6) mc decode_json_aid_bool by auto
  ultimately show ?thesis
    using vc tc sc mc by simp
qed

text \<open>
  C9. When the percent-decoding of the input fails, \<^verbatim>\<open>base64DecodeUserinfo\<close> goes on with
  the empty string and succeeds with the empty plaintext; it does not report a failure.
\<close>

theorem base64DecodeUserinfo_bad_escape:
  "snd (QueryUnescape s) \<noteq> None \<Longrightarrow> base64DecodeUserinfo s = Inr []"
  by (simp add: base64DecodeUserinfo_def QueryUnescape_def DecodeString_def split: if_splits)

theorem base64DecodeUserinfo_bad_escape_witness:
  "snd (QueryUnescape ''YWJj%zz'') \<noteq> None \<and> base64DecodeUserinfo ''YWJj%zz'' = Inr []"
  using base64DecodeUserinfo_bad_escape[of "''YWJj%zz''"]
  by (simp add: QueryUnescape_def ishex_def ord_def)

text \<open>
  C5 at a failing input. The unpadded and the padded URL-safe encoding of every plaintext
  are decoded to the plaintext (\<open>base64DecodeUserinfo_RawURL\<close>, \<open>base64DecodeUserinfo_URL\<close>),
  and so is the padded standard encoding when it has no \<^verbatim>\<open>+\<close> in it
  (\<open>base64DecodeUserinfo_Std\<close>). When it has one, decoding fails
  (\<open>Std_encoding_with_plus_rejected\<close>): the standard padded encoding of \<^verbatim>\<open>{"ps":"a~"}\<close> is
  \<^verbatim>\<open>eyJwcyI6ImF+In0=\<close>, \<^verbatim>\<open>url.QueryUnescape\<close> turns its \<^verbatim>\<open>+\<close> into a space, and all three
  decoders reject it: the plaintext is not recovered, and a \<^verbatim>\<open>vmess://\<close> line with this
  payload does not parse. The two URL-safe encodings of the same plaintext decode to it.
\<close>

theorem base64DecodeUserinfo_std_plus_fails:
  "EncodeToString StdEncoding json_tilde = ''eyJwcyI6ImF+In0=''
   \<and> fst (QueryUnescape ''eyJwcyI6ImF+In0='') = ''eyJwcyI6ImF In0=''
   \<and> base64DecodeUserinfo (EncodeToString StdEncoding json_tilde) = Inl Base64DecodeFailed
   \<and> parseVmess f2i Unmarshal ''vmess://eyJwcyI6ImF+In0='' = Inl Base64DecodeFailed
   \<and> ParseLine (\<lambda>l. l) Parse f2i Unmarshal ''vmess://eyJwcyI6ImF+In0='' = Inl Base64DecodeFailed
   \<and> base64DecodeUserinfo (EncodeToString URLEncoding json_tilde) = Inr json_tilde
   \<and> base64DecodeUserinfo (EncodeToString RawURLEncoding json_tilde) = Inr json_tilde"
proof -
  have p: "parseVmess f2i Unmarshal ''vmess://eyJwcyI6ImF+In0='' = Inl Base64DecodeFailed"
    by (simp add: b64_simps parseVmess_def vmess_payload_def TrimPrefix_def HasPrefix_def)
  have "HasPrefix ''vmess://eyJwcyI6ImF+In0='' ''vmess://''"
    by (simp add: HasPrefix_def)
  then have "ParseLine (\<lambda>l. l) Parse f2i Unmarshal ''vmess://eyJwcyI6ImF+In0=''
      = map_sum id Vmess (parseVmess f2i Unmarshal ''vmess://eyJwcyI6ImF+In0='')"
    by (rule ParseLine_dispatch(3))
  with p have l: "ParseLine (\<lambda>l. l) Parse f2i Unmarshal ''vmess://eyJwcyI6ImF+In0=''
      = Inl Base64DecodeFailed"
    by simp
  have "EncodeToString StdEncoding json_tilde = ''eyJwcyI6ImF+In0=''
   \<and> fst (QueryUnescape ''eyJwcyI6ImF+In0='') = ''eyJwcyI6ImF In0=''
   \<and> base64DecodeUserinfo (EncodeToString StdEncoding json_tilde) = Inl Base64DecodeFailed
   \<and> base64DecodeUserinfo (EncodeToString URLEncoding json_tilde) = Inr json_tilde
   \<and> base64DecodeUserinfo (EncodeToString RawURLEncoding json_tilde) = Inr json_tilde"
    by (simp add: json_tilde_def dq_def b64_simps)
  with p l show ?thesis by blast
qed


section \<open>Properties of the liveness checker\<close>

lemma waitForPort_loop_refused:
  assumes "now < deadline" and "env_DialTimeout env k addr 200000000 = (False, el)"
  shows "waitForPort_loop env addr deadline now k
         = waitForPort_loop env addr deadline (now + el + (100000000 + env_oversleep env k)) (Suc k)"
  by (subst waitForPort_loop.simps) (simp only: assms if_True prod.case bool.case)

lemma waitForPort_loop_late:
  assumes "\<not> now < deadline"
  shows "waitForPort_loop env addr deadline now k = (False, k)"
  by (subst waitForPort_loop.simps) (simp only: assms if_False)

lemma waitForPort_loop_timeout:
  "deadline \<le> attempt_start env addr k + n * 100000000 \<Longrightarrow>
   (\<forall>j. attempt_start env addr j < deadline \<longrightarrow> \<not> fst (env_DialTimeout env j addr 200000000)) \<Longrightarrow>
   \<exists>m. waitForPort_loop env addr deadline (attempt_start env addr k) k = (False, m) \<and> m \<le> k + n"
proof (induction n arbitrary: k)
  case 0
  then have "\<not> attempt_start env addr k < deadline" by simp
  then show ?case by (simp add: waitForPort_loop_late)
next
  case (Suc n)
  show ?case
  proof (cases "attempt_start env addr k < deadline")
    case False
    then show ?thesis by (simp add: waitForPort_loop_late)
  next
    case True
    obtain ok el where d: "env_DialTimeout env k addr 200000000 = (ok, el)"
      by (cases "env_DialTimeout env k addr 200000000")
    from Suc.prems(2) True have "\<not> fst (env_DialTimeout env k addr 200000000)" by blast
    with d have d': "env_DialTimeout env k addr 200000000 = (False, el)" by simp
    have nxt: "attempt_start env addr k + el + (100000000 + env_oversleep env k)
               = attempt_start env addr (Suc k)"
      by (simp only: attempt_start.simps d' snd_conv)
    have "attempt_start env addr k + 100000000 \<le> attempt_start env addr (Suc k)"
      using nxt by linarith
    moreover have "Suc n * 100000000 = n * 100000000 + 100000000"
      by (simp only: mult_Suc add.commute)
    ultimately have "deadline \<le> attempt_start env addr (Suc k) + n * 100000000"
      using Suc.prems(1) by linarith
    then obtain m where m:
      "waitForPort_loop env addr deadline (attempt_start env addr (Suc k)) (Suc k) = (False, m)"
      "m \<le> Suc k + n"
      using Suc.IH[of "Suc k"] Suc.prems(2) by blast
    have "waitForPort_loop env addr deadline (attempt_start env addr k) k
          = waitForPort_loop env addr deadline (attempt_start env addr (Suc k)) (Suc k)"
      using waitForPort_loop_refused[OF True d'] by (simp only: nxt)
    with m show ?thesis by (intro exI[of _ m]) simp
  qed
qed

lemma waitForPort_never_ready:
  assumes "\<forall>k. attempt_start env (host @ '':'' @ show_int port) k < env_now env + 3000000000
               \<longrightarrow> \<not> fst (env_DialTimeout env k (host @ '':'' @ show_int port) 200000000)"
  shows "\<exists>m\<le>30. waitForPort env host port 3000000000
                   = (Some (''timeout waiting for '' @ host @ '':'' @ show_int port), m)"
proof -
  let ?addr = "host @ '':'' @ show_int port"
  have "env_now env + 3000000000 \<le> attempt_start env ?addr 0 + 30 * 100000000" by simp
  then obtain m where
    "waitForPort_loop env ?addr (env_now env + 3000000000) (attempt_start env ?addr 0) 0 = (False, m)"
    "m \<le> 0 + 30"
    using waitForPort_loop_timeout[of "env_now env + 3000000000" env ?addr 0 30] assms by blast
  then show ?thesis by (simp add: waitForPort_def)
qed

lemma attempt_start_late_accept: "attempt_start env_late_accept addr k = k * 300000000"
  by (induction k) (simp_all add: env_late_accept_def env0_def)

lemma CheckConfig_Index: "res_Index (fst (CheckConfig idx cfg timeout env)) = idx"
  by (simp add: CheckConfig_def probe_def Let_def split: sum.splits prod.splits option.splits)

section \<open>Properties of the orchestrator\<close>

lemma Inv_init: "Inv a (init a)"
  by (auto simp add: Inv_def init_def covered_def)

lemma Inv_main_step: "Inv a s \<Longrightarrow> main_step a s = Next s' \<Longrightarrow> Inv a s'"
  by (auto simp add: Inv_def main_step_def covered_def split: if_splits)

lemma in_set_update_other: "x \<in> set ws \<Longrightarrow> x \<noteq> ws ! w \<Longrightarrow> x \<in> set (ws[w := y])"
  by (metis in_set_conv_nth length_list_update nth_list_update_neq)

lemma in_set_updateD: "x \<in> set (ws[w := y]) \<Longrightarrow> x = y \<or> x \<in> set ws"
  using set_update_subset_insert[of ws w y] by auto

lemma Inv_worker_exit:
  assumes I: "Inv a s" and w: "w < length (p_workers s)" and idle: "p_workers s ! w = Idle"
    and e: "p_jobs s = []" and c: "p_closed s"
  shows "Inv a (s\<lparr>p_workers := (p_workers s)[w := Exited]\<rparr>)"
proof -
  let ?s' = "s\<lparr>p_workers := (p_workers s)[w := Exited]\<rparr>"
  have cov: "\<forall>i < length (a_configs a). covered a ?s' i"
  proof (intro allI impI)
    fix i assume "i < length (a_configs a)"
    with I have "covered a s i" by (simp add: Inv_def)
    then show "covered a ?s' i"
      using idle by (auto simp add: covered_def intro: in_set_update_other)
  qed
  have busy: "\<forall>j. Busy j \<in> set (p_workers ?s') \<longrightarrow> j < length (a_configs a)"
    using I by (auto simp add: Inv_def dest!: in_set_updateD)
  have cnt: "sum_list (map busy (p_workers ?s')) = sum_list (map busy (p_workers s))"
    using sum_list_map_update[OF w, of busy Exited] idle by simp
  show ?thesis
    unfolding Inv_def using I cov busy cnt e c by (simp add: Inv_def)
qed

lemma Inv_worker_recv:
  assumes I: "Inv a s" and w: "w < length (p_workers s)" and idle: "p_workers s ! w = Idle"
    and j: "p_jobs s = j # rest"
  shows "Inv a (s\<lparr>p_jobs := rest, p_workers := (p_workers s)[w := Busy j]\<rparr>)"
proof -
  let ?s' = "s\<lparr>p_jobs := rest, p_workers := (p_workers s)[w := Busy j]\<rparr>"
  have cov: "\<forall>i < length (a_configs a). covered a ?s' i"
  proof (intro allI impI)
    fix i assume "i < length (a_configs a)"
    with I have "covered a s i" by (simp add: Inv_def)
    then show "covered a ?s' i"
      using idle j w by (auto simp add: covered_def intro: in_set_update_other set_update_memI)
  qed
  have busy: "\<forall>i. Busy i \<in> set (p_workers ?s') \<longrightarrow> i < length (a_configs a)"
    using I j by (auto simp add: Inv_def dest!: in_set_updateD)
  have ex: "Exited \<notin> set (p_workers s)"
    using I j by (auto simp add: Inv_def)
  then have ex': "Exited \<notin> set (p_workers ?s')"
    by (auto dest!: in_set_updateD)
  have cnt: "sum_list (map busy (p_workers ?s')) = sum_list (map busy (p_workers s)) + 1"
    using sum_list_map_update[OF w, of busy "Busy j"] idle by simp
  show ?thesis
    unfolding Inv_def using I cov busy cnt ex' j by (simp add: Inv_def)
qed

lemma Inv_worker_commit:
  assumes I: "Inv a s" and w: "w < length (p_workers s)" and b: "p_workers s ! w = Busy j"
  shows "Inv a (s\<lparr>p_results := (p_results s)[j := expected a j],
                   p_done := p_done s + 1,
                   p_calls := (if a_onResult a
                               then p_calls s @ [(expected a j, p_done s + 1, length (a_configs a))]
                               else p_calls s),
                   p_workers := (p_workers s)[w := Idle]\<rparr>)"
    (is "Inv a ?s'")
proof -
  have jin: "Busy j \<in> set (p_workers s)"
    using w b by (metis nth_mem)
  with I have jN: "j < length (p_results s)" by (simp add: Inv_def)
  have cov: "\<forall>i < length (a_configs a). covered a ?s' i"
  proof (intro allI impI)
    fix i assume "i < length (a_configs a)"
    with I have ci: "covered a s i" by (simp add: Inv_def)
    show "covered a ?s' i"
    proof (cases "i = j")
      case True
      then show ?thesis using jN by (simp add: covered_def)
    next
      case False
      then show ?thesis
        using ci b by (auto simp add: covered_def intro: in_set_update_other)
    qed
  qed
  have busy: "\<forall>i. Busy i \<in> set (p_workers ?s') \<longrightarrow> i < length (a_configs a)"
    using I by (auto simp add: Inv_def dest!: in_set_updateD)
  have ex: "Exited \<in> set (p_workers ?s') \<longrightarrow> Exited \<in> set (p_workers s)"
    by (auto dest!: in_set_updateD)
  have cnt: "sum_list (map busy (p_workers ?s')) + 1 = sum_list (map busy (p_workers s))"
    using sum_list_map_update[OF w, of busy Idle] nth_le_sum_list_map[OF w, of busy] b by simp
  show ?thesis
    unfolding Inv_def using I cov busy cnt ex by (auto simp add: Inv_def)
qed

lemma Inv_worker_step:
  assumes "Inv a s" and "worker_step a w s = Next s'"
  shows "Inv a s'"
proof -
  from assms(2) have w: "w < length (p_workers s)"
    by (auto simp add: worker_step_def split: if_splits)
  show ?thesis
  proof (cases "p_workers s ! w")
    case Idle
    show ?thesis
    proof (cases "p_jobs s")
      case Nil
      with Idle assms w Inv_worker_exit[OF assms(1) w Idle Nil] show ?thesis
        by (auto simp add: worker_step_def split: if_splits)
    next
      case (Cons j rest)
      with Idle assms w Inv_worker_recv[OF assms(1) w Idle Cons] show ?thesis
        by (auto simp add: worker_step_def split: if_splits)
    qed
  next
    case (Busy j)
    with assms w Inv_worker_commit[OF assms(1) w Busy] show ?thesis
      by (auto simp add: worker_step_def Let_def expected_def split: if_splits)
  next
    case Exited
    with assms w show ?thesis by (simp add: worker_step_def)
  qed
qed

lemma Inv_thread_step: "Inv a s \<Longrightarrow> thread_step a t s = Next s' \<Longrightarrow> Inv a s'"
  by (cases t) (auto dest: Inv_main_step Inv_worker_step)

lemma thread_step_no_panic: "Inv a s \<Longrightarrow> thread_step a t s \<noteq> Panic"
proof (cases t)
  case Main
  then show ?thesis by (simp add: main_step_def)
next
  case (Worker w)
  assume I: "Inv a s"
  show ?thesis
  proof (cases "w < length (p_workers s)")
    case False
    with Worker show ?thesis by (simp add: worker_step_def)
  next
    case True
    then have "p_workers s ! w \<in> set (p_workers s)" by simp
    with I have "\<And>j. p_workers s ! w = Busy j \<Longrightarrow> j < length (a_configs a) \<and> j < length (p_results s)"
      by (auto simp add: Inv_def)
    with Worker True show ?thesis
      by (auto simp add: worker_step_def Let_def split: worker.splits list.splits)
  qed
qed

lemma runnable_progress:
  assumes I: "Inv a s" and nf: "\<not> final s"
  shows "runnable a s \<noteq> []"
proof (cases "p_closed s")
  case False
  from I have "p_next s < length (a_configs a) \<Longrightarrow> length (p_jobs s) < length (a_configs a)"
    by (simp add: Inv_def)
  with False have "main_step a s \<noteq> Blocked"
    by (simp add: main_step_def)
  then show ?thesis
    by (auto simp add: runnable_def)
next
  case True
  with nf obtain x where "x \<in> set (p_workers s)" "x \<noteq> Exited"
    by (auto simp add: final_def list_all_iff)
  then obtain w where w: "w < length (p_workers s)" "p_workers s ! w \<noteq> Exited"
    by (auto simp add: in_set_conv_nth)
  with True have "worker_step a w s \<noteq> Blocked"
    by (auto simp add: worker_step_def Let_def split: worker.splits list.splits)
  moreover have "Worker w \<in> set (map Worker [0..<length (p_workers s)])"
    using w by simp
  ultimately have "Worker w \<in> set (runnable a s)"
    by (simp add: runnable_def)
  then show ?thesis by auto
qed

lemma exec_reaches_final:
  assumes pres: "\<And>s t s'. Inv a s \<Longrightarrow> P s \<Longrightarrow> thread_step a t s = Next s' \<Longrightarrow> P s'"
  shows "Inv a s \<Longrightarrow> P s \<Longrightarrow> \<exists>s'. exec a pick t s = Some s' \<and> Inv a s' \<and> P s' \<and> final s'"
  using pres
proof (induction a pick t s rule: exec.induct)
  case (1 a pick t s)
  show ?case
  proof (cases "final s")
    case True
    with "1.prems"(1,2) show ?thesis by (subst exec.simps) simp
  next
    case False
    with "1.prems" obtain th ths where r: "runnable a s = th # ths"
      using runnable_progress[of a s] by (cases "runnable a s") auto
    let ?t = "(th # ths) ! (pick t mod length (th # ths))"
    have "?t \<in> set (runnable a s)"
      unfolding r by (rule nth_mem) simp
    then have nb: "thread_step a ?t s \<noteq> Blocked"
      unfolding runnable_def set_filter by blast
    have np: "thread_step a ?t s \<noteq> Panic"
      using "1.prems"(1) by (rule thread_step_no_panic)
    from nb np obtain s' where s': "thread_step a ?t s = Next s'"
      by (cases "thread_step a ?t s") auto
    have "Inv a s'" using "1.prems"(1) s' by (rule Inv_thread_step)
    moreover have "P s'" using "1.prems"(1,2) s' by (rule "1.prems"(3))
    ultimately obtain s'' where "exec a pick (Suc t) s' = Some s''" "Inv a s''" "P s''" "final s''"
      using "1.IH"[OF False r s'] "1.prems"(3) by blast
    then show ?thesis
      using False r s' by (subst exec.simps) simp
  qed
qed

lemma workers_length_step:
  "thread_step a t s = Next s' \<Longrightarrow> length (p_workers s') = length (p_workers s)"
  by (cases t)
     (auto simp add: main_step_def worker_step_def Let_def split: if_splits worker.splits list.splits)

lemma all_Exited_busy: "list_all (\<lambda>w. w = Exited) ws \<Longrightarrow> sum_list (map busy ws) = 0"
  by (induction ws) auto

lemma final_results:
  assumes I: "Inv a s" and f: "final s" and ne: "p_workers s \<noteq> []"
  shows "p_results s = map (expected a) [0..<length (a_configs a)]"
    and "p_done s = length (a_configs a)"
proof -
  from f have allE: "\<forall>x \<in> set (p_workers s). x = Exited"
    by (simp add: final_def list_all_iff)
  with ne have "Exited \<in> set (p_workers s)"
    by (cases "p_workers s") auto
  with I have e: "p_jobs s = []" "p_next s = length (a_configs a)"
    by (auto simp add: Inv_def)
  have nb: "\<And>i. Busy i \<notin> set (p_workers s)"
    using allE by auto
  have "\<forall>i < length (a_configs a). p_results s ! i = expected a i"
    using I e nb by (auto simp add: Inv_def covered_def)
  moreover from I have "length (p_results s) = length (a_configs a)" by (simp add: Inv_def)
  ultimately show "p_results s = map (expected a) [0..<length (a_configs a)]"
    by (auto intro: nth_equalityI)
  from f have "sum_list (map busy (p_workers s)) = 0"
    by (simp add: final_def all_Exited_busy)
  with I e show "p_done s = length (a_configs a)"
    by (simp add: Inv_def)
qed


lemma CheckAll_run_workers:
  assumes "1 \<le> a_workers a"
  shows "\<exists>s. CheckAll_run a pick = Some s
            \<and> p_results s = map (expected a) [0..<length (a_configs a)]
            \<and> p_done s = length (a_configs a)
            \<and> length (p_calls s) = (if a_onResult a then length (a_configs a) else 0)"
proof -
  let ?P = "\<lambda>s. length (p_workers s) = nat (a_workers a)"
  have "?P (init a)" by (simp add: init_def)
  moreover have "\<And>s t s'. Inv a s \<Longrightarrow> ?P s \<Longrightarrow> thread_step a t s = Next s' \<Longrightarrow> ?P s'"
    by (drule workers_length_step) simp
  ultimately obtain s where s: "exec a pick 0 (init a) = Some s" "Inv a s" "?P s" "final s"
    using exec_reaches_final[of a ?P "init a" pick 0] Inv_init[of a]
    by blast
  from s(3) assms have "p_workers s \<noteq> []" by auto
  with s have "p_results s = map (expected a) [0..<length (a_configs a)]"
    "p_done s = length (a_configs a)"
    using final_results[of a s] by blast+
  moreover from s(2) have "length (p_calls s) = (if a_onResult a then p_done s else 0)"
    by (simp add: Inv_def)
  ultimately show ?thesis
    using s(1) by (simp add: CheckAll_run_def)
qed



lemma replicate_two: "replicate 2 x = [x, x]"
  by (simp add: numeral_2_eq_2)

lemmas exec_simps = replicate_two CheckAll_def CheckAll_run_def init_def exec.simps final_def
  runnable_def main_step_def worker_step_def Let_def

text \<open>
  Under the scheduler \<open>pick1\<close> the second configuration is finished and reported before
  the first.
\<close>

lemma CheckAll_args1_calls:
  "map_option p_calls (CheckAll_run args1 pick1) =
     Some [(fst (CheckConfig 2 cfg0 10000000000 env_never_ready), 1, 2),
           (fst (CheckConfig 1 cfg0 10000000000 env0), 2, 2)]"
  by (simp add: exec_simps args1_def pick1_def upt_rec)

lemma CheckConfig_env_geo_fail:
  "CheckConfig 1 cfg0 10000000000 env_geo_fail =
     (\<lparr>res_Index = 1, res_Name = ''n'', res_Protocol = ''shadowsocks'', res_Server = ''1.2.3.4'',
       res_Port = 8388, res_Alive = False, res_Latency = 250000000, res_ExitIP = [],
       res_Country = [], res_Error = ''ip-api: private range''\<rparr>,
      [EvListen, EvGenerateConfig, EvStart, EvDialTimeout 0, EvDialTimeout 1, EvDialTimeout 2,
       EvSOCKS5, EvGet, EvReadAll, EvBodyClose, EvStop])"
  by (simp add: CheckConfig_def probe_def waitForPort_def waitForPort_loop.simps freePort_def
        env_geo_fail_def env0_def cfg0_def show_simps upt_rec)

section \<open>The claims about the checker and the orchestrator\<close>

text \<open>
  C1. For every configuration list of length N and every worker count of at least 1,
  under every scheduler, \<^verbatim>\<open>CheckAll\<close> returns a list of N Results in which the Result at
  position i has Index i+1 and is the Result that \<^verbatim>\<open>CheckConfig\<close> produces for
  \<^verbatim>\<open>configs[i]\<close>, whatever the order in which the workers finish.
\<close>

theorem CheckAll_results_in_order:
  assumes "1 \<le> a_workers a"
  shows "\<exists>rs. CheckAll a pick = Some rs
            \<and> length rs = length (a_configs a)
            \<and> (\<forall>i < length (a_configs a).
                  res_Index (rs ! i) = int i + 1
                  \<and> rs ! i = fst (CheckConfig (int i + 1) (a_configs a ! i) (a_timeout a) (a_envs a i)))"
proof -
  from CheckAll_run_workers[OF assms, of pick] obtain s where
    s: "CheckAll_run a pick = Some s" "p_results s = map (expected a) [0..<length (a_configs a)]"
    by blast
  have "CheckAll a pick = Some (map (expected a) [0..<length (a_configs a)])"
    using s by (simp add: CheckAll_def)
  moreover have "\<forall>i < length (a_configs a).
      res_Index (map (expected a) [0..<length (a_configs a)] ! i) = int i + 1
      \<and> map (expected a) [0..<length (a_configs a)] ! i
          = fst (CheckConfig (int i + 1) (a_configs a ! i) (a_timeout a) (a_envs a i))"
    by (simp add: expected_def CheckConfig_Index)
  ultimately show ?thesis by (simp add: CheckConfig_Index)
qed

theorem CheckAll_results_in_order_witness:
  "1 \<le> a_workers args1
   \<and> map_option p_calls (CheckAll_run args1 pick1) =
       Some [(fst (CheckConfig 2 cfg0 10000000000 env_never_ready), 1, 2),
             (fst (CheckConfig 1 cfg0 10000000000 env0), 2, 2)]
   \<and> (\<exists>rs. CheckAll args1 pick1 = Some rs
          \<and> length rs = 2
          \<and> res_Index (rs ! 0) = 1 \<and> rs ! 0 = fst (CheckConfig 1 cfg0 10000000000 env0)
          \<and> res_Index (rs ! 1) = 2 \<and> rs ! 1 = fst (CheckConfig 2 cfg0 10000000000 env_never_ready))"
  using CheckAll_results_in_order[of args1 pick1] CheckAll_args1_calls
  by (auto simp add: args1_def All_less_Suc numeral_2_eq_2)

text \<open>
  C2. Every Result of \<^verbatim>\<open>CheckConfig\<close> is in exactly one of two states: alive with an
  empty error message, or not alive with a non-empty error message.
\<close>

theorem CheckConfig_alive_xor_error:
  "(res_Alive (fst (CheckConfig idx cfg timeout env))
      \<and> res_Error (fst (CheckConfig idx cfg timeout env)) = [])
   \<noteq> (\<not> res_Alive (fst (CheckConfig idx cfg timeout env))
      \<and> res_Error (fst (CheckConfig idx cfg timeout env)) \<noteq> [])"
  by (simp add: CheckConfig_def probe_def Let_def split: sum.splits prod.splits option.splits)




text \<open>
  C8. When the engine accepts no connection on the allocated port during the 3 seconds
  of the readiness wait, that is when every attempt that starts before the deadline
  fails, \<^verbatim>\<open>CheckConfig\<close> returns a Result that is not alive, whose error is the
  engine-not-ready message and whose latency is zero; no HTTP request is made, at most
  30 attempts are made (a sleep of at least 100 ms follows each), and the engine is
  stopped last.
\<close>

theorem CheckConfig_engine_not_ready:
  assumes "freePort env = Inr port"
    and "env_GenerateConfig env cfg port = Inr configJSON"
    and "env_Start env configJSON = Inr cmd"
    and "\<forall>k. attempt_start env (''127.0.0.1:'' @ show_int port) k < env_now env + 3000000000
             \<longrightarrow> \<not> fst (env_DialTimeout env k (''127.0.0.1:'' @ show_int port) 200000000)"
  shows "\<not> res_Alive (fst (CheckConfig idx cfg timeout env))
       \<and> res_Error (fst (CheckConfig idx cfg timeout env))
           = ''xray not ready: timeout waiting for 127.0.0.1:'' @ show_int port
       \<and> res_Latency (fst (CheckConfig idx cfg timeout env)) = 0
       \<and> EvGet \<notin> set (snd (CheckConfig idx cfg timeout env))
       \<and> length (filter (\<lambda>e. \<exists>k. e = EvDialTimeout k) (snd (CheckConfig idx cfg timeout env))) \<le> 30
       \<and> last (snd (CheckConfig idx cfg timeout env)) = EvStop"
proof -
  from assms(4) obtain m where m: "m \<le> 30"
    "waitForPort env ''127.0.0.1'' port 3000000000
       = (Some (''timeout waiting for '' @ ''127.0.0.1'' @ '':'' @ show_int port), m)"
    using waitForPort_never_ready[of env "''127.0.0.1''" port] by auto
  have "length (filter (\<lambda>e. \<exists>k. e = EvDialTimeout k) (map EvDialTimeout [0..<m])) = m"
    by (simp add: filter_map comp_def)
  then show ?thesis
    using assms(1-3) m by (auto simp add: CheckConfig_def probe_def)
qed

text \<open>
  The witness: ten refusals of 200 ms each, every one followed by a sleep of 100 ms, fill
  the 3 seconds; the eleventh attempt would be accepted, but it is never made.
\<close>

theorem CheckConfig_engine_not_ready_witness:
  "freePort env_late_accept = Inr 40123
   \<and> env_GenerateConfig env_late_accept cfg0 40123 = Inr ''{}''
   \<and> env_Start env_late_accept ''{}'' = Inr 1
   \<and> attempt_start env_late_accept ''127.0.0.1:40123'' 9 = 2700000000
   \<and> \<not> fst (env_DialTimeout env_late_accept 9 ''127.0.0.1:40123'' 200000000)
   \<and> attempt_start env_late_accept ''127.0.0.1:40123'' 10 = 3000000000
   \<and> fst (env_DialTimeout env_late_accept 10 ''127.0.0.1:40123'' 200000000)
   \<and> \<not> res_Alive (fst (CheckConfig 1 cfg0 10000000000 env_late_accept))
   \<and> res_Error (fst (CheckConfig 1 cfg0 10000000000 env_late_accept))
       = ''xray not ready: timeout waiting for 127.0.0.1:40123''
   \<and> res_Latency (fst (CheckConfig 1 cfg0 10000000000 env_late_accept)) = 0
   \<and> EvGet \<notin> set (snd (CheckConfig 1 cfg0 10000000000 env_late_accept))"
proof -
  have h: "\<forall>k. attempt_start env_late_accept (''127.0.0.1:'' @ show_int 40123) k
                < env_now env_late_accept + 3000000000
             \<longrightarrow> \<not> fst (env_DialTimeout env_late_accept k (''127.0.0.1:'' @ show_int 40123) 200000000)"
    by (simp add: attempt_start_late_accept) (simp add: env_late_accept_def env0_def)
  have e: "freePort env_late_accept = Inr 40123"
    "env_GenerateConfig env_late_accept cfg0 40123 = Inr ''{}''"
    "env_Start env_late_accept ''{}'' = Inr 1"
    by (simp_all add: env_late_accept_def env0_def freePort_def)
  have d: "\<not> fst (env_DialTimeout env_late_accept 9 ''127.0.0.1:40123'' 200000000)"
    "fst (env_DialTimeout env_late_accept 10 ''127.0.0.1:40123'' 200000000)"
    by (simp_all add: env_late_accept_def)
  have p: "show_int 40123 = ''40123''" by (simp add: show_simps)
  show ?thesis
    using CheckConfig_engine_not_ready[OF e h, of 1 10000000000] e d
    by (simp add: attempt_start_late_accept p)
qed

text \<open>
  C10. When the HTTP GET through the proxy was made and returned a response, and a later
  step fails (reading the body, parsing the JSON, or a status other than \<^verbatim>\<open>"success"\<close>),
  the Result is not alive, has a non-empty error, and its Latency is the measured
  latency of the request.
\<close>

theorem CheckConfig_latency_kept:
  assumes "EvGet \<in> set (snd (CheckConfig idx cfg timeout env))"
    and "env_Get env timeout = Inr elapsed"
    and "(\<exists>err. env_ReadAll env = Inl err)
       \<or> (\<exists>body err. env_ReadAll env = Inr body \<and> env_Unmarshal env body = Inl err)
       \<or> (\<exists>body a. env_ReadAll env = Inr body \<and> env_Unmarshal env body = Inr a
                   \<and> api_Status a \<noteq> ''success'')"
  shows "\<not> res_Alive (fst (CheckConfig idx cfg timeout env))
       \<and> res_Error (fst (CheckConfig idx cfg timeout env)) \<noteq> []
       \<and> res_Latency (fst (CheckConfig idx cfg timeout env)) = int elapsed"
  using assms
  by (auto simp add: CheckConfig_def probe_def Let_def split: sum.splits prod.splits option.splits)

theorem CheckConfig_latency_kept_witness:
  "EvGet \<in> set (snd (CheckConfig 1 cfg0 10000000000 env_geo_fail))
   \<and> env_Get env_geo_fail 10000000000 = Inr 250000000
   \<and> (\<exists>body a. env_ReadAll env_geo_fail = Inr body \<and> env_Unmarshal env_geo_fail body = Inr a
                \<and> api_Status a \<noteq> ''success'')
   \<and> \<not> res_Alive (fst (CheckConfig 1 cfg0 10000000000 env_geo_fail))
   \<and> res_Error (fst (CheckConfig 1 cfg0 10000000000 env_geo_fail)) \<noteq> []
   \<and> res_Latency (fst (CheckConfig 1 cfg0 10000000000 env_geo_fail)) = 250000000"
  using CheckConfig_latency_kept[of 1 cfg0 10000000000 env_geo_fail 250000000]
  by (simp add: CheckConfig_env_geo_fail) (simp add: env_geo_fail_def env0_def)

end
